theory Spec2Isabelle
  imports Main "HOL-Library.Word"
begin

section \<open>Data model\<close>

text \<open>Modelled from the spec: the enumeration \<open>TaskType\<close> (declared in
  \<open>multi_physical_planner.h\<close>, which is not among the sources). The spec lists the
  initial-partition (map) task, the output-fetch task, the merge task and the plain
  select and modify task types.
\<close>

datatype TaskType = MAP_TASK | MAP_OUTPUT_FETCH_TASK | MERGE_TASK | SQL_TASK | MODIFY_TASK

text \<open>Modelled from the spec: the structs \<open>ShardPlacement\<close>, \<open>WorkerNode\<close> and \<open>Task\<close>
  (declared in headers that are not among the sources), with exactly the fields the two
  executor files read or write. A \<open>Task *\<close> is an address into a store of tasks, since
  the same task object is reachable from the flat task list and from the
  \<open>dependedTaskList\<close> of every task that waits on it.
\<close>

record ShardPlacement =
  nodeName :: string
  nodePort :: "32 word"

record WorkerNode =
  workerName :: string
  workerPort :: "32 word"

type_synonym task_ptr = nat

record Task =
  jobId :: "64 word"
  taskId :: "32 word"
  taskType :: TaskType
  dependedTaskList :: "task_ptr list"
  queryString :: string
  taskPlacementList :: "ShardPlacement list"
  partitionId :: "32 word"
  upstreamTaskId :: "32 word"

type_synonym heap = "task_ptr \<Rightarrow> Task"

subsection \<open>Errors and observable events\<close>

text \<open>
  \<open>ereport(ERROR, ...)\<close> in a collaborator, a failed \<open>Assert\<close> and a null dereference
  all leave the function at once; each is a value of \<open>error\<close>, returned as \<open>Inl\<close>.
\<close>

datatype error =
    PriorModification
  | AssertFailure
  | NullDereference
  | RemoteExecutionFailure
  | BroadcastFailure

text \<open>
  The calls made to the external collaborators, in order. \<open>EvSend name port role cmds\<close>
  is one call of \<open>SendCommandListToWorkerInSingleTransaction\<close>; \<open>EvExecute batch n\<close> is
  one call of \<open>ExecuteTaskList(ROW_MODIFY_NONE, batch, n)\<close>; \<open>EvTrackerCleanup\<close> is the
  call of \<open>TrackerCleanupJobDirectories\<close>.
\<close>

datatype event =
    EvSend string "32 word" string "string list"
  | EvExecute "task_ptr list" int
  | EvTrackerCleanup

subsection \<open>Command templates\<close>

text \<open>
  The macros \<open>MAP_OUTPUT_FETCH_COMMAND\<close>, \<open>WORKER_CREATE_SCHEMA_QUERY\<close> and
  \<open>WORKER_DELETE_JOBDIR_QUERY\<close> are printf templates defined outside the sources. A
  template is taken as a parameter, already split into literal text and conversion
  specifications; \<open>appendStringInfo\<close> fills each conversion with the next argument.
\<close>

datatype fmt_item = Literal string | Conversion

datatype fmt_arg = ArgUInt64 "64 word" | ArgUInt32 "32 word" | ArgString string

type_synonym fmt_template = "fmt_item list"

definition digit_char :: "nat \<Rightarrow> char" where
  "digit_char d = ''0123456789'' ! d"

fun decimal :: "nat \<Rightarrow> string" where
  "decimal n = (if n < 10 then [digit_char n] else decimal (n div 10) @ [digit_char (n mod 10)])"

declare decimal.simps [simp del]

fun render_arg :: "fmt_arg \<Rightarrow> string" where
  "render_arg (ArgUInt64 w) = decimal (unat w)"
| "render_arg (ArgUInt32 w) = decimal (unat w)"
| "render_arg (ArgString s) = s"

text \<open>
  A conversion with no argument left is undefined behaviour in C; no call in the
  sources passes fewer arguments than its template is meant to take, and the model
  renders nothing for it.
\<close>

fun format :: "fmt_template \<Rightarrow> fmt_arg list \<Rightarrow> string" where
  "format [] args = []"
| "format (Literal s # fs) args = s @ format fs args"
| "format (Conversion # fs) (a # args) = render_arg a @ format fs args"
| "format (Conversion # fs) [] = format fs []"

definition appendStringInfo :: "string \<Rightarrow> fmt_template \<Rightarrow> fmt_arg list \<Rightarrow> string" where
  "appendStringInfo buf templ args = buf @ format templ args"

definition makeStringInfo :: string where
  "makeStringInfo = []"

subsection \<open>External collaborators\<close>

text \<open>
  Everything the two files call but do not define: the build flag that turns \<open>Assert\<close>
  on, the transaction's modification flag, the cluster membership query, the extension
  owner, the task-tree walk, the outcome of the multi-task executor on a batch, the
  outcome of a per-worker send, and the command templates. The membership query is
  made anew at every broadcast, so its answer is a function of the calls made so far.
\<close>

record Collaborators =
  USE_ASSERT_CHECKING :: bool
  modificationsDone :: bool
  ActiveReadableNodeList :: "event list \<Rightarrow> WorkerNode list"
  CitusExtensionOwnerName :: string
  TaskAndExecutionList :: "task_ptr list \<Rightarrow> task_ptr list"
  ExecuteTaskList_ok :: "task_ptr list \<Rightarrow> bool"
  SendCommandList_ok :: "string \<Rightarrow> 32 word \<Rightarrow> string \<Rightarrow> string list \<Rightarrow> bool"
  MAP_OUTPUT_FETCH_COMMAND :: fmt_template
  WORKER_CREATE_SCHEMA_QUERY :: fmt_template
  WORKER_DELETE_JOBDIR_QUERY :: fmt_template
  JOB_SCHEMA_CLEANUP :: string
  MaxAdaptiveExecutorPoolSize :: int

section \<open>The completed set (adaptive\_executor\_repartioning.c)\<close>

text \<open>
  \<open>TaskHashKey\<close> is the pair (jobId, taskId). \<open>TaskHashCompare\<close> compares both fields,
  so the table behaves as a set of keys. \<open>hash_search\<close> is PostgreSQL's dynahash entry
  point, restricted to the two actions the file uses: it reports whether the key was
  present before the call, and \<open>HASH_ENTER\<close> also inserts it.
\<close>

type_synonym TaskHashKey = "64 word \<times> 32 word"

type_synonym HTAB = "TaskHashKey set"

datatype HASHACTION = HASH_FIND | HASH_ENTER

definition CreateTaskHashTable :: HTAB where
  "CreateTaskHashTable = {}"

definition hash_search :: "HTAB \<Rightarrow> TaskHashKey \<Rightarrow> HASHACTION \<Rightarrow> bool \<times> HTAB" where
  "hash_search tab k action =
     (case action of
        HASH_FIND \<Rightarrow> (k \<in> tab, tab)
      | HASH_ENTER \<Rightarrow> (k \<in> tab, insert k tab))"

definition FillTaskKey :: "Task \<Rightarrow> TaskHashKey" where
  "FillTaskKey task = (jobId task, taskId task)"

fun AddCompletedTasks :: "heap \<Rightarrow> task_ptr list \<Rightarrow> HTAB \<Rightarrow> HTAB" where
  "AddCompletedTasks h [] completedTasks = completedTasks"
| "AddCompletedTasks h (task # rest) completedTasks =
     AddCompletedTasks h rest (snd (hash_search completedTasks (FillTaskKey (h task)) HASH_ENTER))"

text \<open>As in the source, the lookup is made with \<open>HASH_ENTER\<close>: the table is returned too.\<close>

definition IsTaskAlreadyCompleted :: "heap \<Rightarrow> task_ptr \<Rightarrow> HTAB \<Rightarrow> bool \<times> HTAB" where
  "IsTaskAlreadyCompleted h task completedTasks =
     hash_search completedTasks (FillTaskKey (h task)) HASH_ENTER"

fun IsAllDependencyCompleted_loop :: "heap \<Rightarrow> task_ptr list \<Rightarrow> HTAB \<Rightarrow> bool" where
  "IsAllDependencyCompleted_loop h [] completedTasks = True"
| "IsAllDependencyCompleted_loop h (task # rest) completedTasks =
     (if \<not> fst (hash_search completedTasks (FillTaskKey (h task)) HASH_FIND) then False
      else IsAllDependencyCompleted_loop h rest completedTasks)"

definition IsAllDependencyCompleted :: "heap \<Rightarrow> task_ptr \<Rightarrow> HTAB \<Rightarrow> bool" where
  "IsAllDependencyCompleted h targetTask completedTasks =
     IsAllDependencyCompleted_loop h (dependedTaskList (h targetTask)) completedTasks"

section \<open>The scheduler (adaptive\_executor\_repartioning.c)\<close>

text \<open>
  The \<open>foreach\<close> inside \<open>ExecuteTasksInDependencyOrder\<close>: one pass over \<open>allTasks\<close>
  that appends every ready task to \<open>curTasks\<close>. The second conjunct of the test is
  evaluated only when the first holds, and it passes the table on.
\<close>

fun ExecuteTasksInDependencyOrder_scan ::
  "heap \<Rightarrow> task_ptr list \<Rightarrow> HTAB \<Rightarrow> task_ptr list \<Rightarrow> task_ptr list \<times> HTAB" where
  "ExecuteTasksInDependencyOrder_scan h [] completedTasks curTasks = (curTasks, completedTasks)"
| "ExecuteTasksInDependencyOrder_scan h (task # rest) completedTasks curTasks =
     (if IsAllDependencyCompleted h task completedTasks then
        (case IsTaskAlreadyCompleted h task completedTasks of
           (found, completedTasks') \<Rightarrow>
             if \<not> found
             then ExecuteTasksInDependencyOrder_scan h rest completedTasks' (curTasks @ [task])
             else ExecuteTasksInDependencyOrder_scan h rest completedTasks' curTasks)
      else ExecuteTasksInDependencyOrder_scan h rest completedTasks curTasks)"

lemma scan_table_grows:
  "ExecuteTasksInDependencyOrder_scan h ts tab cur = (cur', tab') \<Longrightarrow> tab \<subseteq> tab'"
  by (induction ts arbitrary: tab cur)
     (auto simp: IsTaskAlreadyCompleted_def hash_search_def split: if_splits)

lemma scan_table_keys:
  "ExecuteTasksInDependencyOrder_scan h ts tab cur = (cur', tab') \<Longrightarrow>
     tab' \<subseteq> tab \<union> (\<lambda>p. FillTaskKey (h p)) ` set ts"
  by (induction ts arbitrary: tab cur)
     (fastforce simp: IsTaskAlreadyCompleted_def hash_search_def split: if_splits)+

lemma scan_new_key:
  "ExecuteTasksInDependencyOrder_scan h ts tab cur = (cur', tab') \<Longrightarrow> cur' \<noteq> cur \<Longrightarrow>
     \<exists>k. k \<in> tab' \<and> k \<notin> tab"
proof (induction ts arbitrary: tab cur)
  case Nil
  then show ?case by simp
next
  case (Cons t ts)
  show ?case
  proof (cases "IsAllDependencyCompleted h t tab \<and> FillTaskKey (h t) \<notin> tab")
    case True
    with Cons.prems(1) have "ExecuteTasksInDependencyOrder_scan h ts
        (insert (FillTaskKey (h t)) tab) (cur @ [t]) = (cur', tab')"
      by (simp add: IsTaskAlreadyCompleted_def hash_search_def)
    from scan_table_grows [OF this] True show ?thesis
      by (intro exI [of _ "FillTaskKey (h t)"]) auto
  next
    case False
    with Cons.prems(1) have "ExecuteTasksInDependencyOrder_scan h ts tab cur = (cur', tab')"
      by (auto simp: IsTaskAlreadyCompleted_def hash_search_def insert_absorb split: if_splits)
    from Cons.IH [OF this Cons.prems(2)] show ?thesis .
  qed
qed

lemma AddCompletedTasks_keys:
  "AddCompletedTasks h ts tab = tab \<union> (\<lambda>p. FillTaskKey (h p)) ` set ts"
  by (induction ts arbitrary: tab) (auto simp: hash_search_def)

text \<open>
  The \<open>while (true)\<close> loop. A pass that finds no ready task ends it; otherwise the batch
  goes to the external executor, whose failure (an \<open>ereport(ERROR)\<close>) ends the run, and
  whose success is followed by \<open>AddCompletedTasks\<close> and the next pass.
\<close>

function ExecuteTasksInDependencyOrder_loop ::
  "Collaborators \<Rightarrow> heap \<Rightarrow> task_ptr list \<Rightarrow> HTAB \<Rightarrow> event list \<Rightarrow> (error + unit) \<times> event list"
  where
  "ExecuteTasksInDependencyOrder_loop env h allTasks completedTasks tr =
     (case ExecuteTasksInDependencyOrder_scan h allTasks completedTasks [] of
        (curTasks, completedTasks') \<Rightarrow>
          if length curTasks = 0 then (Inr (), tr)
          else if \<not> ExecuteTaskList_ok env curTasks
          then (Inl RemoteExecutionFailure,
                tr @ [EvExecute curTasks (MaxAdaptiveExecutorPoolSize env)])
          else ExecuteTasksInDependencyOrder_loop env h allTasks
                 (AddCompletedTasks h curTasks completedTasks')
                 (tr @ [EvExecute curTasks (MaxAdaptiveExecutorPoolSize env)]))"
  by pat_completeness auto

termination
proof (relation "measure (\<lambda>(env, h, allTasks, completedTasks, tr).
          card ((\<lambda>p. FillTaskKey (h p)) ` set allTasks - completedTasks))")
  show "wf (measure (\<lambda>(env, h, allTasks, completedTasks, tr).
          card ((\<lambda>p. FillTaskKey (h p)) ` set allTasks - completedTasks)))"
    by simp
next
  fix env :: "Collaborators" and h :: heap and allTasks :: "task_ptr list"
    and completedTasks :: HTAB and tr :: "event list" and curTasks completedTasks'
  assume pair: "(curTasks, completedTasks') =
      ExecuteTasksInDependencyOrder_scan h allTasks completedTasks []"
    and nonempty: "length curTasks \<noteq> 0"
    and "\<not> \<not> ExecuteTaskList_ok env curTasks"
  let ?K = "(\<lambda>p. FillTaskKey (h p)) ` set allTasks"
  from pair have scan:
    "ExecuteTasksInDependencyOrder_scan h allTasks completedTasks [] = (curTasks, completedTasks')"
    by simp
  from nonempty have "curTasks \<noteq> []" by simp
  from scan_new_key [OF scan this] obtain k where k: "k \<in> completedTasks'" "k \<notin> completedTasks"
    by blast
  from scan_table_keys [OF scan] k have kK: "k \<in> ?K" by blast
  from scan_table_grows [OF scan] have sub: "completedTasks \<subseteq> completedTasks'" .
  let ?new = "AddCompletedTasks h curTasks completedTasks'"
  have "completedTasks' \<subseteq> ?new" by (simp add: AddCompletedTasks_keys)
  with sub k have "?K - ?new \<subset> ?K - completedTasks"
    using kK by blast
  then have "card (?K - ?new) < card (?K - completedTasks)"
    by (intro psubset_card_mono) auto
  then show "((env, h, allTasks, AddCompletedTasks h curTasks completedTasks',
               tr @ [EvExecute curTasks (MaxAdaptiveExecutorPoolSize env)]),
              (env, h, allTasks, completedTasks, tr))
             \<in> measure (\<lambda>(env, h, allTasks, completedTasks, tr).
                 card ((\<lambda>p. FillTaskKey (h p)) ` set allTasks - completedTasks))"
    by simp
qed

declare ExecuteTasksInDependencyOrder_loop.simps [simp del]

definition ExecuteTasksInDependencyOrder ::
  "Collaborators \<Rightarrow> heap \<Rightarrow> task_ptr list \<Rightarrow> task_ptr list \<Rightarrow> event list
     \<Rightarrow> (error + unit) \<times> event list" where
  "ExecuteTasksInDependencyOrder env h allTasks topLevelTasks tr =
     ExecuteTasksInDependencyOrder_loop env h allTasks
       (AddCompletedTasks h topLevelTasks CreateTaskHashTable) tr"

section \<open>Fetch-command synthesis (adaptive\_executor\_repartioning.c)\<close>

text \<open>
  \<open>FillTaskGroups\<close> of adaptive\_executor\_repartioning.c: one pass that appends each
  output-fetch task to one list and each merge task to the other.
\<close>

fun FillTaskGroups_adaptive ::
  "heap \<Rightarrow> task_ptr list \<Rightarrow> task_ptr list \<Rightarrow> task_ptr list \<Rightarrow> task_ptr list \<times> task_ptr list"
  where
  "FillTaskGroups_adaptive h [] outputFetchTasks mergeTasks = (outputFetchTasks, mergeTasks)"
| "FillTaskGroups_adaptive h (task # rest) outputFetchTasks mergeTasks =
     FillTaskGroups_adaptive h rest
       (if taskType (h task) = MAP_OUTPUT_FETCH_TASK then outputFetchTasks @ [task]
        else outputFetchTasks)
       (if taskType (h task) = MERGE_TASK then mergeTasks @ [task] else mergeTasks)"

text \<open>
  \<open>MapFetchTaskQueryString\<close>. \<open>linitial\<close> of an empty placement list reads through a
  null cell. The two \<open>Assert\<close>s come after the placement has been read, and they are
  compiled in only when \<open>USE_ASSERT_CHECKING\<close> is defined.
\<close>

definition MapFetchTaskQueryString ::
  "Collaborators \<Rightarrow> heap \<Rightarrow> task_ptr \<Rightarrow> task_ptr \<Rightarrow> error + string" where
  "MapFetchTaskQueryString env h mapFetchTask mapTask =
     (let partitionFileId = partitionId (h mapFetchTask);
          mergeTaskId = upstreamTaskId (h mapFetchTask);
          mapTaskPlacementList = taskPlacementList (h mapTask)
      in case mapTaskPlacementList of
           [] \<Rightarrow> Inl NullDereference
         | mapTaskPlacement # _ \<Rightarrow>
             let mapTaskNodeName = nodeName mapTaskPlacement;
                 mapTaskNodePort = nodePort mapTaskPlacement
             in if USE_ASSERT_CHECKING env \<and> taskType (h mapFetchTask) \<noteq> MAP_OUTPUT_FETCH_TASK
                then Inl AssertFailure
                else if USE_ASSERT_CHECKING env \<and> taskType (h mapTask) \<noteq> MAP_TASK
                then Inl AssertFailure
                else Inr (appendStringInfo makeStringInfo (MAP_OUTPUT_FETCH_COMMAND env)
                       [ArgUInt64 (jobId (h mapTask)), ArgUInt32 (taskId (h mapTask)),
                        ArgUInt32 partitionFileId, ArgUInt32 mergeTaskId,
                        ArgString mapTaskNodeName, ArgUInt32 mapTaskNodePort]))"

text \<open>
  \<open>PutMapOutputFetchQueryStrings\<close>: for each fetch task, the first entry of its
  \<open>dependedTaskList\<close> is taken as the map task (\<open>linitial\<close> of an empty list reads through
  a null cell), and the synthesized text is stored in the task's \<open>queryString\<close>.
\<close>

fun PutMapOutputFetchQueryStrings ::
  "Collaborators \<Rightarrow> heap \<Rightarrow> task_ptr list \<Rightarrow> error + heap" where
  "PutMapOutputFetchQueryStrings env h [] = Inr h"
| "PutMapOutputFetchQueryStrings env h (task # rest) =
     (case dependedTaskList (h task) of
        [] \<Rightarrow> Inl NullDereference
      | mapTask # _ \<Rightarrow>
          (case MapFetchTaskQueryString env h task mapTask of
             Inl e \<Rightarrow> Inl e
           | Inr mapFetchTaskQueryString \<Rightarrow>
               PutMapOutputFetchQueryStrings env
                 (h(task := (h task)\<lparr>queryString := mapFetchTaskQueryString\<rparr>)) rest))"

section \<open>Provisioning and reclamation (repartition\_logic.c)\<close>

text \<open>\<open>FillTaskGroups\<close> of repartition\_logic.c collects the merge tasks only.\<close>

fun FillTaskGroups :: "heap \<Rightarrow> task_ptr list \<Rightarrow> task_ptr list \<Rightarrow> task_ptr list" where
  "FillTaskGroups h [] mergeTasks = mergeTasks"
| "FillTaskGroups h (task # rest) mergeTasks =
     FillTaskGroups h rest
       (if taskType (h task) = MERGE_TASK then mergeTasks @ [task] else mergeTasks)"

fun DoesJobIDExist :: "64 word list \<Rightarrow> 64 word \<Rightarrow> bool" where
  "DoesJobIDExist [] jobId' = False"
| "DoesJobIDExist (curJobId # rest) jobId' =
     (if curJobId = jobId' then True else DoesJobIDExist rest jobId')"

text \<open>
  The job id is stored in the list as a pointer-sized value; pointers are taken to be
  64 bits wide, so the cast loses nothing.
\<close>

fun CreateJobIds_loop :: "heap \<Rightarrow> task_ptr list \<Rightarrow> 64 word list \<Rightarrow> 64 word list" where
  "CreateJobIds_loop h [] jobIds = jobIds"
| "CreateJobIds_loop h (task # rest) jobIds =
     (if \<not> DoesJobIDExist jobIds (jobId (h task))
      then CreateJobIds_loop h rest (jobIds @ [jobId (h task)])
      else CreateJobIds_loop h rest jobIds)"

definition CreateJobIds :: "heap \<Rightarrow> task_ptr list \<Rightarrow> 64 word list" where
  "CreateJobIds h mergeTasks = CreateJobIds_loop h mergeTasks []"

fun GenerateCommand_loop :: "64 word list \<Rightarrow> fmt_template \<Rightarrow> string \<Rightarrow> string" where
  "GenerateCommand_loop [] templateCommand createSchemaCommand = createSchemaCommand"
| "GenerateCommand_loop (jobId' # rest) templateCommand createSchemaCommand =
     GenerateCommand_loop rest templateCommand
       (appendStringInfo createSchemaCommand templateCommand [ArgUInt64 jobId'])"

definition GenerateCommand :: "64 word list \<Rightarrow> fmt_template \<Rightarrow> string" where
  "GenerateCommand jobIds templateCommand =
     GenerateCommand_loop jobIds templateCommand makeStringInfo"

definition GenerateCreateSchemasCommand :: "Collaborators \<Rightarrow> 64 word list \<Rightarrow> string" where
  "GenerateCreateSchemasCommand env jobIds = GenerateCommand jobIds (WORKER_CREATE_SCHEMA_QUERY env)"

definition GenerateDeleteJobsCommand :: "Collaborators \<Rightarrow> 64 word list \<Rightarrow> string" where
  "GenerateDeleteJobsCommand env jobIds = GenerateCommand jobIds (WORKER_DELETE_JOBDIR_QUERY env)"

text \<open>
  \<open>SendCommandToAllWorkers\<close>: the node list is read when the broadcast starts; then
  one send per node of the list, in order. A send that fails raises, so the nodes after
  it are not contacted.
\<close>

fun SendCommandToAllWorkers_loop ::
  "Collaborators \<Rightarrow> string \<Rightarrow> WorkerNode list \<Rightarrow> string list \<Rightarrow> event list
     \<Rightarrow> (error + unit) \<times> event list" where
  "SendCommandToAllWorkers_loop env extensionOwner [] commandList tr = (Inr (), tr)"
| "SendCommandToAllWorkers_loop env extensionOwner (workerNode # rest) commandList tr =
     (if SendCommandList_ok env (workerName workerNode) (workerPort workerNode)
           extensionOwner commandList
      then SendCommandToAllWorkers_loop env extensionOwner rest commandList
             (tr @ [EvSend (workerName workerNode) (workerPort workerNode)
                      extensionOwner commandList])
      else (Inl BroadcastFailure,
            tr @ [EvSend (workerName workerNode) (workerPort workerNode)
                    extensionOwner commandList]))"

definition SendCommandToAllWorkers ::
  "Collaborators \<Rightarrow> string list \<Rightarrow> event list \<Rightarrow> (error + unit) \<times> event list" where
  "SendCommandToAllWorkers env commandList tr =
     (let extensionOwner = CitusExtensionOwnerName env;
          workerNodeList = ActiveReadableNodeList env tr
      in SendCommandToAllWorkers_loop env extensionOwner workerNodeList commandList tr)"

definition CreateSchemasOnAllWorkers ::
  "Collaborators \<Rightarrow> string \<Rightarrow> event list \<Rightarrow> (error + unit) \<times> event list" where
  "CreateSchemasOnAllWorkers env createSchemasCommand tr =
     SendCommandToAllWorkers env [createSchemasCommand] tr"

definition CreateTemporarySchemas ::
  "Collaborators \<Rightarrow> heap \<Rightarrow> task_ptr list \<Rightarrow> event list
     \<Rightarrow> (error + 64 word list) \<times> event list" where
  "CreateTemporarySchemas env h mergeTasks tr =
     (let jobIds = CreateJobIds h mergeTasks;
          createSchemasCommand = GenerateCreateSchemasCommand env jobIds
      in case CreateSchemasOnAllWorkers env createSchemasCommand tr of
           (Inl e, tr') \<Rightarrow> (Inl e, tr')
         | (Inr _, tr') \<Rightarrow> (Inr jobIds, tr'))"

definition RemoveTempJobDirs ::
  "Collaborators \<Rightarrow> 64 word list \<Rightarrow> event list \<Rightarrow> (error + unit) \<times> event list" where
  "RemoveTempJobDirs env jobIds tr =
     SendCommandToAllWorkers env [GenerateDeleteJobsCommand env jobIds] tr"

definition CleanUpSchemas :: "Collaborators \<Rightarrow> event list \<Rightarrow> (error + unit) \<times> event list" where
  "CleanUpSchemas env tr = SendCommandToAllWorkers env [JOB_SCHEMA_CLEANUP env] tr"

text \<open>Modelled from the spec: \<open>EnsureNoModificationsHaveBeenDone\<close> (declared in
  \<open>transaction_management.h\<close>; its body is not among the sources). The spec: the check
  confirms that no data-modifying statement has already executed earlier in the
  enclosing unit of work; if one has, the run fails immediately.
\<close>

definition EnsureNoModificationsHaveBeenDone :: "Collaborators \<Rightarrow> error + unit" where
  "EnsureNoModificationsHaveBeenDone env =
     (if modificationsDone env then Inl PriorModification else Inr ())"

section \<open>The two entry points\<close>

text \<open>
  \<open>ExecuteDependedTasks\<close> of repartition\_logic.c. It calls
  \<open>ExecuteTasksInDependencyOrder(allTasks, topLevelTasks)\<close>, which that file neither
  defines nor declares: the header it includes for it is not among the sources. The
  callee is taken to be the function of that name and signature that
  adaptive\_executor\_repartioning.c defines.
\<close>

definition ExecuteDependedTasks ::
  "Collaborators \<Rightarrow> heap \<Rightarrow> task_ptr list \<Rightarrow> event list \<Rightarrow> (error + unit) \<times> event list" where
  "ExecuteDependedTasks env h topLevelTasks tr =
     (case EnsureNoModificationsHaveBeenDone env of
        Inl e \<Rightarrow> (Inl e, tr)
      | Inr _ \<Rightarrow>
          let allTasks = TaskAndExecutionList env topLevelTasks;
              mergeTasks = FillTaskGroups h allTasks []
          in case CreateTemporarySchemas env h mergeTasks tr of
               (Inl e, tr1) \<Rightarrow> (Inl e, tr1)
             | (Inr jobIds, tr1) \<Rightarrow>
                 (case ExecuteTasksInDependencyOrder env h allTasks topLevelTasks tr1 of
                    (Inl e, tr2) \<Rightarrow> (Inl e, tr2)
                  | (Inr _, tr2) \<Rightarrow> RemoveTempJobDirs env jobIds tr2))"

text \<open>
  \<open>ExecuteDependedTasks\<close> of adaptive\_executor\_repartioning.c: no guard and no
  reclamation; the fetch commands are synthesized before the schemas are created. Its
  own copies of \<open>CreateJobIds\<close>, \<open>doesJobIDExist\<close>, \<open>CreateSchemasOnAllWorkers\<close> and
  \<open>SendCommandToAllWorkers\<close> are the same statements as in repartition\_logic.c, and its
  \<open>GenerateCreateSchemasCommand\<close> is the loop of \<open>GenerateCommand\<close> with the template
  \<open>WORKER_CREATE_SCHEMA_QUERY\<close>; its \<open>CreateTemporarySchemas\<close> drops the job ids.
\<close>

definition ExecuteDependedTasks_adaptive ::
  "Collaborators \<Rightarrow> heap \<Rightarrow> task_ptr list \<Rightarrow> event list \<Rightarrow> (error + heap) \<times> event list" where
  "ExecuteDependedTasks_adaptive env h topLevelTasks tr =
     (let tr0 = tr @ [EvTrackerCleanup];
          allTasks = TaskAndExecutionList env topLevelTasks
      in case FillTaskGroups_adaptive h allTasks [] [] of
           (mapOutputFetchTasks, mergeTasks) \<Rightarrow>
             (case PutMapOutputFetchQueryStrings env h mapOutputFetchTasks of
                Inl e \<Rightarrow> (Inl e, tr0)
              | Inr h' \<Rightarrow>
                  (case CreateTemporarySchemas env h' mergeTasks tr0 of
                     (Inl e, tr1) \<Rightarrow> (Inl e, tr1)
                   | (Inr _, tr1) \<Rightarrow>
                       (case ExecuteTasksInDependencyOrder env h' allTasks topLevelTasks tr1 of
                          (Inl e, tr2) \<Rightarrow> (Inl e, tr2)
                        | (Inr _, tr2) \<Rightarrow> (Inr h', tr2)))))"

section \<open>Derived notions used in the statements\<close>

text \<open>The identity of the task at an address.\<close>

abbreviation task_key :: "heap \<Rightarrow> task_ptr \<Rightarrow> TaskHashKey" where
  "task_key h p \<equiv> FillTaskKey (h p)"

text \<open>The batches handed to the external executor, in the order of the calls.\<close>

fun batches :: "event list \<Rightarrow> task_ptr list list" where
  "batches [] = []"
| "batches (EvExecute batch n # es) = batch # batches es"
| "batches (EvSend name port role cmds # es) = batches es"
| "batches (EvTrackerCleanup # es) = batches es"

text \<open>The per-worker sends, in the order of the calls.\<close>

fun broadcasts :: "event list \<Rightarrow> (string \<times> 32 word \<times> string \<times> string list) list" where
  "broadcasts [] = []"
| "broadcasts (EvSend name port role cmds # es) = (name, port, role, cmds) # broadcasts es"
| "broadcasts (EvExecute batch n # es) = broadcasts es"
| "broadcasts (EvTrackerCleanup # es) = broadcasts es"

text \<open>
  A valid task collection, as the data model of the spec has it: the identity
  (jobId, taskId) is unique per task, every entry of a \<open>dependedTaskList\<close> is a member of
  the collection (the top-level tasks included), and the dependency edges are acyclic.
\<close>

definition dependency_edges :: "heap \<Rightarrow> task_ptr list \<Rightarrow> (task_ptr \<times> task_ptr) set" where
  "dependency_edges h allTasks =
     set (concat (map (\<lambda>p. map (\<lambda>d. (d, p)) (dependedTaskList (h p))) allTasks))"

definition valid_dag :: "heap \<Rightarrow> task_ptr list \<Rightarrow> task_ptr list \<Rightarrow> bool" where
  "valid_dag h allTasks topLevelTasks \<longleftrightarrow>
     inj_on (\<lambda>p. FillTaskKey (h p)) (set allTasks \<union> set topLevelTasks) \<and>
     (\<forall>p \<in> set allTasks. set (dependedTaskList (h p)) \<subseteq> set allTasks \<union> set topLevelTasks) \<and>
     acyclic (dependency_edges h allTasks)"

text \<open>The sends of one command list to a list of workers, as the extension owner.\<close>

definition sends :: "Collaborators \<Rightarrow> string list \<Rightarrow> WorkerNode list \<Rightarrow> event list" where
  "sends env commandList workers =
     map (\<lambda>w. EvSend (workerName w) (workerPort w) (CitusExtensionOwnerName env) commandList)
       workers"

text \<open>Whether the send of a command list to a worker, as the extension owner, succeeds.\<close>

definition send_ok :: "Collaborators \<Rightarrow> string list \<Rightarrow> WorkerNode \<Rightarrow> bool" where
  "send_ok env commandList w =
     SendCommandList_ok env (workerName w) (workerPort w) (CitusExtensionOwnerName env)
       commandList"

text \<open>
  The nodes a broadcast contacts: every node of the list up to and including the first
  one for which the send fails, and the whole list when none fails.
\<close>

definition attempted :: "('a \<Rightarrow> bool) \<Rightarrow> 'a list \<Rightarrow> 'a list" where
  "attempted ok workers = takeWhile ok workers @ take 1 (dropWhile ok workers)"

text \<open>Two stores that agree on every field of every task except \<open>queryString\<close>.\<close>

definition same_but_query :: "heap \<Rightarrow> heap \<Rightarrow> bool" where
  "same_but_query h h' \<longleftrightarrow>
     (\<forall>p. jobId (h' p) = jobId (h p) \<and> taskId (h' p) = taskId (h p) \<and>
          taskType (h' p) = taskType (h p) \<and>
          dependedTaskList (h' p) = dependedTaskList (h p) \<and>
          taskPlacementList (h' p) = taskPlacementList (h p) \<and>
          partitionId (h' p) = partitionId (h p) \<and>
          upstreamTaskId (h' p) = upstreamTaskId (h p))"

text \<open>The distinct values of a list in the order of their first occurrence.\<close>

fun first_seen :: "'a list \<Rightarrow> 'a list" where
  "first_seen [] = []"
| "first_seen (x # xs) = x # filter (\<lambda>y. y \<noteq> x) (first_seen xs)"

section \<open>Concrete inputs\<close>

definition example_task :: "64 word \<Rightarrow> 32 word \<Rightarrow> TaskType \<Rightarrow> task_ptr list \<Rightarrow> Task" where
  "example_task j t ty deps =
     \<lparr>jobId = j, taskId = t, taskType = ty, dependedTaskList = deps, queryString = [],
      taskPlacementList = [\<lparr>nodeName = ''worker-a'', nodePort = 5432\<rparr>,
                           \<lparr>nodeName = ''worker-b'', nodePort = 5433\<rparr>],
      partitionId = 4, upstreamTaskId = 9\<rparr>"

text \<open>
  An environment in which every remote call succeeds. The templates are examples of the
  shape the macros have; nothing proved for all inputs depends on them.
\<close>

definition example_env :: Collaborators where
  "example_env =
     \<lparr>USE_ASSERT_CHECKING = True, modificationsDone = False,
      ActiveReadableNodeList = (\<lambda>calls. [\<lparr>workerName = ''worker-a'', workerPort = 5432\<rparr>,
                                         \<lparr>workerName = ''worker-b'', workerPort = 5433\<rparr>]),
      CitusExtensionOwnerName = ''postgres'',
      TaskAndExecutionList = (\<lambda>topLevelTasks. [1, 2, 3]),
      ExecuteTaskList_ok = (\<lambda>batch. True),
      SendCommandList_ok = (\<lambda>name port role cmds. True),
      MAP_OUTPUT_FETCH_COMMAND =
        [Literal ''fetch_partition_file('', Conversion, Literal '','', Conversion,
         Literal '','', Conversion, Literal '','', Conversion, Literal '','',
         Conversion, Literal '','', Conversion, Literal '')''],
      WORKER_CREATE_SCHEMA_QUERY = [Literal ''create_schema('', Conversion, Literal '');''],
      WORKER_DELETE_JOBDIR_QUERY = [Literal ''cleanup_job('', Conversion, Literal '');''],
      JOB_SCHEMA_CLEANUP = ''cleanup_job_schemas();'',
      MaxAdaptiveExecutorPoolSize = 16\<rparr>"

text \<open>Scenario A of the spec: T1 and T2 have no dependencies, T3 depends on [T1, T2].\<close>

definition scenarioA_heap :: heap where
  "scenarioA_heap p =
     (if p = 1 then example_task 1 1 MAP_TASK []
      else if p = 2 then example_task 1 2 MAP_TASK []
      else example_task 1 3 SQL_TASK [1, 2])"

text \<open>
  Scenario A below a top-level task T4 that names T1, T2 and T3 as its dependencies; a
  breadth-first walk from T4 lists the tasks as [T4, T1, T2, T3].
\<close>

definition scenarioA_top_heap :: heap where
  "scenarioA_top_heap p =
     (if p = 4 then example_task 1 4 SQL_TASK [1, 2, 3] else scenarioA_heap p)"

text \<open>Two tasks that wait on each other: neither is ever ready.\<close>

definition cyclic_heap :: heap where
  "cyclic_heap p =
     (if p = 1 then example_task 1 1 SQL_TASK [2]
      else example_task 1 2 SQL_TASK [1])"

text \<open>Scenario C of the spec: three merge tasks with the job ids 5, 5 and 7.\<close>

definition scenarioC_heap :: heap where
  "scenarioC_heap p =
     (if p = 1 then example_task 5 1 MERGE_TASK []
      else if p = 2 then example_task 5 2 MERGE_TASK []
      else example_task 7 1 MERGE_TASK [])"

text \<open>
  A repartition job: map task 1, fetch task 2 waiting on it, merge task 3 waiting on the
  fetch task, and the top-level task 4 waiting on the merge task. The task-tree walk
  lists them from the top. In \<open>failing_env\<close> the executor fails on the batch [1].
\<close>

definition repartition_heap :: heap where
  "repartition_heap p =
     (if p = 1 then example_task 2 1 MAP_TASK []
      else if p = 2 then example_task 2 2 MAP_OUTPUT_FETCH_TASK [1]
      else if p = 3 then example_task 2 3 MERGE_TASK [2]
      else example_task 1 1 SQL_TASK [3])"

definition repartition_env :: Collaborators where
  "repartition_env = example_env\<lparr>TaskAndExecutionList := (\<lambda>topLevelTasks. [4, 3, 2, 1])\<rparr>"

definition failing_env :: Collaborators where
  "failing_env = repartition_env\<lparr>ExecuteTaskList_ok := (\<lambda>batch. batch \<noteq> [1])\<rparr>"

text \<open>The same job when every send to worker-a fails.\<close>

definition send_failing_env :: Collaborators where
  "send_failing_env =
     repartition_env\<lparr>SendCommandList_ok := (\<lambda>name port role cmds. name \<noteq> ''worker-a'')\<rparr>"

text \<open>
  Malformed inputs for the synthesizer: a fetch task whose only dependency is a merge
  task, and a fetch task with two map tasks in its dependency list.
\<close>

definition wrong_type_heap :: heap where
  "wrong_type_heap p =
     (if p = 1 then example_task 2 2 MAP_OUTPUT_FETCH_TASK [2]
      else example_task 2 3 MERGE_TASK [])"

definition wrong_type_env :: Collaborators where
  "wrong_type_env = example_env\<lparr>TaskAndExecutionList := (\<lambda>topLevelTasks. [1, 2])\<rparr>"

definition no_assert_env :: Collaborators where
  "no_assert_env = wrong_type_env\<lparr>USE_ASSERT_CHECKING := False\<rparr>"

definition two_deps_heap :: heap where
  "two_deps_heap p =
     (if p = 1 then example_task 2 2 MAP_OUTPUT_FETCH_TASK [2, 3]
      else if p = 2 then example_task 2 1 MAP_TASK []
      else example_task 2 4 MAP_TASK [])"

section \<open>Properties of the scheduler\<close>

subsection \<open>What one scan and one run of the loop do\<close>

lemma IsAllDependencyCompleted_loop_iff:
  "IsAllDependencyCompleted_loop h ds tab \<longleftrightarrow> (\<forall>d \<in> set ds. task_key h d \<in> tab)"
  by (induction ds) (auto simp: hash_search_def)

lemma IsAllDependencyCompleted_iff:
  "IsAllDependencyCompleted h p tab \<longleftrightarrow> (\<forall>d \<in> set (dependedTaskList (h p)). task_key h d \<in> tab)"
  by (simp add: IsAllDependencyCompleted_def IsAllDependencyCompleted_loop_iff)

lemma scan_Cons:
  "ExecuteTasksInDependencyOrder_scan h (t # ts) tab cur =
     (if IsAllDependencyCompleted h t tab \<and> task_key h t \<notin> tab
      then ExecuteTasksInDependencyOrder_scan h ts (insert (task_key h t) tab) (cur @ [t])
      else ExecuteTasksInDependencyOrder_scan h ts tab cur)"
  by (simp add: IsTaskAlreadyCompleted_def hash_search_def insert_absorb)

lemma scan_result:
  "ExecuteTasksInDependencyOrder_scan h ts tab cur = (cur', tab') \<Longrightarrow>
     \<exists>new. cur' = cur @ new \<and> tab' = tab \<union> task_key h ` set new \<and> set new \<subseteq> set ts \<and>
           distinct (map (task_key h) new) \<and> task_key h ` set new \<inter> tab = {}"
proof (induction ts arbitrary: tab cur)
  case Nil
  then show ?case by simp
next
  case (Cons t ts)
  show ?case
  proof (cases "IsAllDependencyCompleted h t tab \<and> task_key h t \<notin> tab")
    case True
    with Cons.prems have "ExecuteTasksInDependencyOrder_scan h ts
        (insert (task_key h t) tab) (cur @ [t]) = (cur', tab')"
      by (simp add: scan_Cons del: ExecuteTasksInDependencyOrder_scan.simps)
    from Cons.IH [OF this] obtain new where new: "cur' = (cur @ [t]) @ new"
      "tab' = insert (task_key h t) tab \<union> task_key h ` set new" "set new \<subseteq> set ts"
      "distinct (map (task_key h) new)"
      "task_key h ` set new \<inter> insert (task_key h t) tab = {}"
      by blast
    have "cur' = cur @ (t # new)" using new(1) by simp
    moreover have "tab' = tab \<union> task_key h ` set (t # new)" using new(2) by auto
    moreover have "set (t # new) \<subseteq> set (t # ts)" using new(3) by auto
    moreover have "distinct (map (task_key h) (t # new))" using new(4,5) by auto
    moreover have "task_key h ` set (t # new) \<inter> tab = {}" using new(5) True by auto
    ultimately show ?thesis by blast
  next
    case False
    with Cons.prems have "ExecuteTasksInDependencyOrder_scan h ts tab cur = (cur', tab')"
      by (auto simp: scan_Cons simp del: ExecuteTasksInDependencyOrder_scan.simps)
    from Cons.IH [OF this] obtain new where new: "cur' = cur @ new"
      "tab' = tab \<union> task_key h ` set new" "set new \<subseteq> set ts"
      "distinct (map (task_key h) new)" "task_key h ` set new \<inter> tab = {}"
      by blast
    then have "set new \<subseteq> set (t # ts)" by auto
    with new show ?thesis by blast
  qed
qed

lemma scan_none_ready:
  "ExecuteTasksInDependencyOrder_scan h ts tab cur = (cur, tab') \<Longrightarrow>
     \<forall>p \<in> set ts. IsAllDependencyCompleted h p tab \<longrightarrow> task_key h p \<in> tab"
proof (induction ts)
  case Nil
  then show ?case by simp
next
  case (Cons t ts)
  show ?case
  proof (cases "IsAllDependencyCompleted h t tab \<and> task_key h t \<notin> tab")
    case True
    with Cons.prems have "ExecuteTasksInDependencyOrder_scan h ts
        (insert (task_key h t) tab) (cur @ [t]) = (cur, tab')"
      by (simp add: scan_Cons del: ExecuteTasksInDependencyOrder_scan.simps)
    from scan_result [OF this] have False by auto
    then show ?thesis ..
  next
    case False
    with Cons.prems have "ExecuteTasksInDependencyOrder_scan h ts tab cur = (cur, tab')"
      by (auto simp: scan_Cons simp del: ExecuteTasksInDependencyOrder_scan.simps)
    from Cons.IH [OF this] False show ?thesis by auto
  qed
qed

text \<open>One turn of the loop, by cases on the batch the scan returns.\<close>

lemma loop_cases:
  obtains
    (finished) "ExecuteTasksInDependencyOrder_scan h allTasks tab [] = ([], tab)"
      "ExecuteTasksInDependencyOrder_loop env h allTasks tab tr = (Inr (), tr)"
  | (failed) cur where "cur \<noteq> []"
      "ExecuteTasksInDependencyOrder_scan h allTasks tab [] = (cur, tab \<union> task_key h ` set cur)"
      "\<not> ExecuteTaskList_ok env cur"
      "ExecuteTasksInDependencyOrder_loop env h allTasks tab tr =
         (Inl RemoteExecutionFailure, tr @ [EvExecute cur (MaxAdaptiveExecutorPoolSize env)])"
  | (continued) cur where "cur \<noteq> []"
      "ExecuteTasksInDependencyOrder_scan h allTasks tab [] = (cur, tab \<union> task_key h ` set cur)"
      "ExecuteTaskList_ok env cur"
      "ExecuteTasksInDependencyOrder_loop env h allTasks tab tr =
         ExecuteTasksInDependencyOrder_loop env h allTasks (tab \<union> task_key h ` set cur)
           (tr @ [EvExecute cur (MaxAdaptiveExecutorPoolSize env)])"
proof -
  obtain cur tab' where scan: "ExecuteTasksInDependencyOrder_scan h allTasks tab [] = (cur, tab')"
    by (cases "ExecuteTasksInDependencyOrder_scan h allTasks tab []")
  from scan_result [OF scan] have tab': "tab' = tab \<union> task_key h ` set cur" by auto
  show thesis
  proof (cases "cur = []")
    case True
    with scan tab' show thesis
      by (intro finished) (simp_all add: ExecuteTasksInDependencyOrder_loop.simps)
  next
    case False
    show thesis
    proof (cases "ExecuteTaskList_ok env cur")
      case True
      with False scan tab' show thesis
        by (intro continued [of cur])
           (simp_all add: ExecuteTasksInDependencyOrder_loop.simps [of env h allTasks tab]
              AddCompletedTasks_keys Un_assoc)
    next
      case ok: False
      with False scan tab' show thesis
        by (intro failed [of cur])
           (simp_all add: ExecuteTasksInDependencyOrder_loop.simps [of env h allTasks tab])
    qed
  qed
qed


lemma loop_invariant:
  "ExecuteTasksInDependencyOrder_loop env h allTasks tab tr = (r, tr') \<Longrightarrow>
     \<exists>bs. tr' = tr @ map (\<lambda>b. EvExecute b (MaxAdaptiveExecutorPoolSize env)) bs \<and>
          distinct (map (task_key h) (concat bs)) \<and>
          task_key h ` set (concat bs) \<inter> tab = {} \<and>
          set (concat bs) \<subseteq> set allTasks \<and>
          [] \<notin> set bs \<and>
          (r = Inr () \<longrightarrow>
             (\<forall>b \<in> set bs. ExecuteTaskList_ok env b) \<and>
             (\<forall>p \<in> set allTasks.
                IsAllDependencyCompleted h p (tab \<union> task_key h ` set (concat bs)) \<longrightarrow>
                task_key h p \<in> tab \<union> task_key h ` set (concat bs))) \<and>
          (r \<noteq> Inr () \<longrightarrow>
             r = Inl RemoteExecutionFailure \<and> bs \<noteq> [] \<and> \<not> ExecuteTaskList_ok env (last bs) \<and>
             (\<forall>b \<in> set (butlast bs). ExecuteTaskList_ok env b))"
proof (induction env h allTasks tab tr arbitrary: r tr'
    rule: ExecuteTasksInDependencyOrder_loop.induct)
  case (1 env h allTasks tab tr)
  let ?n = "MaxAdaptiveExecutorPoolSize env"
  show ?case
  proof (cases rule: loop_cases [of h allTasks tab env tr])
    case finished
    from finished(2) "1.prems" have r: "r = Inr ()" "tr' = tr" by simp_all
    from scan_none_ready [OF finished(1)]
    have "\<forall>p \<in> set allTasks. IsAllDependencyCompleted h p tab \<longrightarrow> task_key h p \<in> tab" .
    with r show ?thesis by (intro exI [of _ "[]"]) simp
  next
    case (failed cur)
    from failed(4) "1.prems" have r: "r = Inl RemoteExecutionFailure" "tr' = tr @ [EvExecute cur ?n]"
      by simp_all
    from scan_result [OF failed(2)] have
      "distinct (map (task_key h) cur)" "task_key h ` set cur \<inter> tab = {}" "set cur \<subseteq> set allTasks"
      by auto
    with r failed(1,3) show ?thesis by (intro exI [of _ "[cur]"]) simp
  next
    case (continued cur)
    let ?tab = "tab \<union> task_key h ` set cur"
    from scan_result [OF continued(2)] have cur:
      "distinct (map (task_key h) cur)" "task_key h ` set cur \<inter> tab = {}" "set cur \<subseteq> set allTasks"
      by auto
    from continued(4) "1.prems" have run:
      "ExecuteTasksInDependencyOrder_loop env h allTasks (AddCompletedTasks h cur ?tab)
         (tr @ [EvExecute cur ?n]) = (r, tr')"
      by (simp add: AddCompletedTasks_keys Un_assoc)
    have len: "length cur \<noteq> 0" using continued(1) by simp
    have ok: "\<not> \<not> ExecuteTaskList_ok env cur" using continued(3) by simp
    from "1.IH" [OF continued(2) [symmetric] len ok run]
    obtain bs where bs:
      "tr' = (tr @ [EvExecute cur ?n]) @ map (\<lambda>b. EvExecute b ?n) bs"
      "distinct (map (task_key h) (concat bs))"
      "task_key h ` set (concat bs) \<inter> ?tab = {}"
      "set (concat bs) \<subseteq> set allTasks"
      "[] \<notin> set bs"
      "r = Inr () \<longrightarrow>
         (\<forall>b \<in> set bs. ExecuteTaskList_ok env b) \<and>
         (\<forall>p \<in> set allTasks.
            IsAllDependencyCompleted h p (?tab \<union> task_key h ` set (concat bs)) \<longrightarrow>
            task_key h p \<in> ?tab \<union> task_key h ` set (concat bs))"
      "r \<noteq> Inr () \<longrightarrow>
         r = Inl RemoteExecutionFailure \<and> bs \<noteq> [] \<and> \<not> ExecuteTaskList_ok env (last bs) \<and>
         (\<forall>b \<in> set (butlast bs). ExecuteTaskList_ok env b)"
      by (auto simp: AddCompletedTasks_keys Un_assoc)
    have keys: "task_key h ` set (concat (cur # bs)) =
        task_key h ` set cur \<union> task_key h ` set (concat bs)"
      by (simp only: concat.simps set_append image_Un)
    have eqT: "tab \<union> task_key h ` set (concat (cur # bs)) = ?tab \<union> task_key h ` set (concat bs)"
      unfolding keys by blast
    have "tr' = tr @ map (\<lambda>b. EvExecute b ?n) (cur # bs)" using bs(1) by simp
    moreover have "distinct (map (task_key h) (concat (cur # bs)))"
    proof -
      have "task_key h ` set cur \<inter> task_key h ` set (concat bs) = {}" using bs(3) by blast
      with cur(1) bs(2) show ?thesis
        by (simp only: concat.simps map_append distinct_append set_map)
    qed
    moreover have "task_key h ` set (concat (cur # bs)) \<inter> tab = {}"
      unfolding keys using cur(2) bs(3) by blast
    moreover have "set (concat (cur # bs)) \<subseteq> set allTasks"
      using cur(3) bs(4) by (simp only: concat.simps set_append) blast
    moreover have "[] \<notin> set (cur # bs)" using continued(1) bs(5) by auto
    moreover have "r = Inr () \<longrightarrow>
         (\<forall>b \<in> set (cur # bs). ExecuteTaskList_ok env b) \<and>
         (\<forall>p \<in> set allTasks.
            IsAllDependencyCompleted h p (tab \<union> task_key h ` set (concat (cur # bs))) \<longrightarrow>
            task_key h p \<in> tab \<union> task_key h ` set (concat (cur # bs)))"
      using bs(6) continued(3) unfolding eqT by simp
    moreover have "r \<noteq> Inr () \<longrightarrow>
         r = Inl RemoteExecutionFailure \<and> cur # bs \<noteq> [] \<and>
         \<not> ExecuteTaskList_ok env (last (cur # bs)) \<and>
         (\<forall>b \<in> set (butlast (cur # bs)). ExecuteTaskList_ok env b)"
      using bs(7) continued(3) by auto
    ultimately show ?thesis by blast
  qed
qed

lemma batches_append: "batches (tr @ tr') = batches tr @ batches tr'"
  by (induction tr rule: batches.induct) simp_all

lemma batches_map_EvExecute: "batches (map (\<lambda>b. EvExecute b n) bs) = bs"
  by (induction bs) simp_all

lemma broadcasts_append: "broadcasts (tr @ tr') = broadcasts tr @ broadcasts tr'"
  by (induction tr rule: broadcasts.induct) simp_all

lemma broadcasts_map_EvExecute: "broadcasts (map (\<lambda>b. EvExecute b n) bs) = []"
  by (induction bs) simp_all

lemma run_invariant:
  assumes run: "ExecuteTasksInDependencyOrder env h allTasks topLevelTasks [] = (r, tr)"
  shows "tr = map (\<lambda>b. EvExecute b (MaxAdaptiveExecutorPoolSize env)) (batches tr) \<and>
         distinct (map (task_key h) (concat (batches tr))) \<and>
         task_key h ` set (concat (batches tr)) \<inter> task_key h ` set topLevelTasks = {} \<and>
         set (concat (batches tr)) \<subseteq> set allTasks \<and>
         (r = Inr () \<longrightarrow>
            (\<forall>p \<in> set allTasks.
               (\<forall>d \<in> set (dependedTaskList (h p)).
                  task_key h d \<in> task_key h ` set topLevelTasks \<union> task_key h ` set (concat (batches tr)))
               \<longrightarrow> task_key h p \<in> task_key h ` set topLevelTasks \<union> task_key h ` set (concat (batches tr))))"
proof -
  let ?tab = "task_key h ` set topLevelTasks"
  from run have "ExecuteTasksInDependencyOrder_loop env h allTasks ?tab [] = (r, tr)"
    by (simp add: ExecuteTasksInDependencyOrder_def AddCompletedTasks_keys CreateTaskHashTable_def)
  from loop_invariant [OF this] obtain bs where bs:
    "tr = map (\<lambda>b. EvExecute b (MaxAdaptiveExecutorPoolSize env)) bs"
    "distinct (map (task_key h) (concat bs))"
    "task_key h ` set (concat bs) \<inter> ?tab = {}"
    "set (concat bs) \<subseteq> set allTasks"
    "r = Inr () \<longrightarrow>
       (\<forall>p \<in> set allTasks.
          IsAllDependencyCompleted h p (?tab \<union> task_key h ` set (concat bs)) \<longrightarrow>
          task_key h p \<in> ?tab \<union> task_key h ` set (concat bs))"
    by auto
  from bs(1) have "batches tr = bs" by (simp add: batches_map_EvExecute)
  with bs show ?thesis by (simp add: IsAllDependencyCompleted_iff)
qed

lemma dependency_edges_iff:
  "(d, p) \<in> dependency_edges h allTasks \<longleftrightarrow> p \<in> set allTasks \<and> d \<in> set (dependedTaskList (h p))"
  by (auto simp: dependency_edges_def)

lemmas scheduler_eval =
  ExecuteTasksInDependencyOrder_def ExecuteTasksInDependencyOrder_loop.simps
  IsAllDependencyCompleted_def IsTaskAlreadyCompleted_def hash_search_def FillTaskKey_def
  CreateTaskHashTable_def example_task_def example_env_def

lemma scenarioA_valid: "valid_dag scenarioA_heap [3, 1, 2] []"
proof -
  have "dependency_edges scenarioA_heap [3, 1, 2] \<subseteq> measure id"
    by (auto simp: dependency_edges_def scenarioA_heap_def example_task_def)
  then have "wf (dependency_edges scenarioA_heap [3, 1, 2])"
    by (rule wf_subset [OF wf_measure])
  then have "acyclic (dependency_edges scenarioA_heap [3, 1, 2])" by (rule wf_acyclic)
  moreover have "inj_on (task_key scenarioA_heap) (set [3, 1, 2] \<union> set [])"
    by (simp add: scenarioA_heap_def example_task_def FillTaskKey_def)
  moreover have "\<forall>p \<in> set [3, 1, 2].
      set (dependedTaskList (scenarioA_heap p)) \<subseteq> set [3, 1, 2] \<union> set []"
    by (simp add: scenarioA_heap_def example_task_def)
  ultimately show ?thesis by (simp only: valid_dag_def) 
qed

subsection \<open>The claims about the scheduler\<close>

text \<open>
  C1. The claim: every task is dispatched in a wave strictly after every wave that holds
  one of its dependencies, and for Scenario A (T1 and T2 without dependencies, T3
  depending on [T1, T2]) the waves are {T1, T2} followed by {T3}. The code does not do
  this when the task list gives T1 and T2 before T3: \<open>IsTaskAlreadyCompleted\<close> looks the
  task up with \<open>HASH_ENTER\<close>, so a task found ready is entered into the completed set
  during the scan, and T3, scanned later in the same pass, finds both dependencies
  there. All three tasks are handed to the executor in one batch, both when the list
  is [T1, T2, T3] and when it is [T4, T1, T2, T3] with the top-level task T4.
\<close>

theorem C1_scenario_A_is_dispatched_as_one_wave:
  "ExecuteTasksInDependencyOrder example_env scenarioA_heap [1, 2, 3] [] []
     = (Inr (), [EvExecute [1, 2, 3] 16]) \<and>
   ExecuteTasksInDependencyOrder example_env scenarioA_top_heap [4, 1, 2, 3] [4] []
     = (Inr (), [EvExecute [1, 2, 3] 16])"
  by (simp add: scheduler_eval scenarioA_heap_def scenarioA_top_heap_def)

text \<open>
  C2. For a valid task collection (unique identities, dependencies inside the
  collection, acyclic edges) and a run that succeeds, the tasks handed to the executor
  over the whole run, batch after batch, are exactly the tasks of the collection that
  are not top-level tasks, and none of them occurs twice.
\<close>

theorem C2_every_task_dispatched_exactly_once:
  assumes valid: "valid_dag h allTasks topLevelTasks"
    and run: "ExecuteTasksInDependencyOrder env h allTasks topLevelTasks [] = (Inr (), tr)"
  shows "distinct (concat (batches tr)) \<and>
         set (concat (batches tr)) = set allTasks - set topLevelTasks"
proof -
  let ?D = "concat (batches tr)"
  let ?done = "task_key h ` set topLevelTasks \<union> task_key h ` set ?D"
  from valid have inj: "inj_on (task_key h) (set allTasks \<union> set topLevelTasks)"
    and closed: "\<forall>p \<in> set allTasks. set (dependedTaskList (h p)) \<subseteq> set allTasks \<union> set topLevelTasks"
    and acyc: "acyclic (dependency_edges h allTasks)"
    by (simp_all add: valid_dag_def)
  from run_invariant [OF run] have
    dist: "distinct (map (task_key h) ?D)" and
    disj: "task_key h ` set ?D \<inter> task_key h ` set topLevelTasks = {}" and
    sub: "set ?D \<subseteq> set allTasks" and
    final: "\<forall>p \<in> set allTasks.
       (\<forall>d \<in> set (dependedTaskList (h p)). task_key h d \<in> ?done) \<longrightarrow> task_key h p \<in> ?done"
    by simp_all
  have "finite (dependency_edges h allTasks)" by (simp add: dependency_edges_def)
  from finite_acyclic_wf [OF this acyc] have wf: "wf (dependency_edges h allTasks)" .
  have all_done: "p \<in> set allTasks \<Longrightarrow> task_key h p \<in> ?done" for p
  proof (induction p rule: wf_induct_rule [OF wf])
    case (1 p)
    have "task_key h d \<in> ?done" if d: "d \<in> set (dependedTaskList (h p))" for d
    proof (cases "d \<in> set allTasks")
      case True
      from d "1.prems" have "(d, p) \<in> dependency_edges h allTasks"
        by (simp add: dependency_edges_iff)
      from "1.IH" [OF this True] show ?thesis .
    next
      case False
      with closed "1.prems" d have "d \<in> set topLevelTasks" by blast
      then show ?thesis by blast
    qed
    with final "1.prems" show ?case by blast
  qed
  have "set ?D = set allTasks - set topLevelTasks"
  proof (intro equalityI subsetI)
    fix q assume q: "q \<in> set ?D"
    with disj have "q \<notin> set topLevelTasks" by blast
    with q sub show "q \<in> set allTasks - set topLevelTasks" by blast
  next
    fix p assume p: "p \<in> set allTasks - set topLevelTasks"
    then have pa: "p \<in> set allTasks" and pt: "p \<notin> set topLevelTasks" by simp_all
    have "task_key h p \<notin> task_key h ` set topLevelTasks"
    proof
      assume "task_key h p \<in> task_key h ` set topLevelTasks"
      then obtain t where t: "task_key h p = task_key h t" "t \<in> set topLevelTasks"
        by (rule imageE)
      from t(2) have tm: "t \<in> set allTasks \<union> set topLevelTasks" by simp
      from pa have pm: "p \<in> set allTasks \<union> set topLevelTasks" by simp
      have "p = t" by (rule inj_onD [OF inj t(1) pm tm])
      with t(2) pt show False by simp
    qed
    with all_done [OF pa] have "task_key h p \<in> task_key h ` set ?D" by (simp only: Un_iff simp_thms)
    then obtain q where q: "task_key h p = task_key h q" "q \<in> set ?D"
      by (rule imageE)
    from q(2) sub have qm: "q \<in> set allTasks \<union> set topLevelTasks" by blast
    from pa have pm: "p \<in> set allTasks \<union> set topLevelTasks" by simp
    have "p = q" by (rule inj_onD [OF inj q(1) pm qm])
    with q(2) show "p \<in> set ?D" by simp
  qed
  moreover from dist have "distinct ?D" by (simp only: distinct_map)
  ultimately show ?thesis by blast
qed

theorem C2_every_task_dispatched_exactly_once_witness:
  "valid_dag scenarioA_heap [3, 1, 2] [] \<and>
   ExecuteTasksInDependencyOrder example_env scenarioA_heap [3, 1, 2] [] []
     = (Inr (), [EvExecute [1, 2] 16, EvExecute [3] 16]) \<and>
   distinct (concat (batches [EvExecute [1, 2] 16, EvExecute [3] 16])) \<and>
   set (concat (batches [EvExecute [1, 2] 16, EvExecute [3] 16])) = set [3, 1, 2] - set []"
proof -
  have run: "ExecuteTasksInDependencyOrder example_env scenarioA_heap [3, 1, 2] [] []
     = (Inr (), [EvExecute [1, 2] 16, EvExecute [3] 16])"
    by (simp add: scheduler_eval scenarioA_heap_def)
  from C2_every_task_dispatched_exactly_once [OF scenarioA_valid run] scenarioA_valid run
  show ?thesis by blast
qed

text \<open>
  C3. No top-level task is in any batch handed to the executor: neither the task itself
  nor any task with its identity, since the completed set is seeded with the identities
  of the top-level tasks before the first scan.
\<close>

theorem C3_top_level_tasks_never_dispatched:
  assumes "batch \<in> set (batches (snd (ExecuteTasksInDependencyOrder env h allTasks topLevelTasks [])))"
    and "p \<in> set topLevelTasks"
  shows "p \<notin> set batch \<and> (\<forall>q \<in> set batch. FillTaskKey (h q) \<noteq> FillTaskKey (h p))"
proof -
  obtain r tr where run: "ExecuteTasksInDependencyOrder env h allTasks topLevelTasks [] = (r, tr)"
    by (cases "ExecuteTasksInDependencyOrder env h allTasks topLevelTasks []")
  from run_invariant [OF run]
  have disj: "task_key h ` set (concat (batches tr)) \<inter> task_key h ` set topLevelTasks = {}"
    by blast
  from assms(1) run have "set batch \<subseteq> set (concat (batches tr))" by auto
  with disj assms(2) have "\<forall>q \<in> set batch. FillTaskKey (h q) \<noteq> FillTaskKey (h p)" by blast
  then show ?thesis by blast
qed

theorem C3_top_level_tasks_never_dispatched_witness:
  "[1, 2] \<in> set (batches (snd (ExecuteTasksInDependencyOrder example_env scenarioA_heap
       [3, 1, 2] [3] []))) \<and>
   (3::nat) \<in> set [3] \<and> 3 \<notin> set [1, 2::nat] \<and>
   FillTaskKey (scenarioA_heap 1) \<noteq> FillTaskKey (scenarioA_heap 3) \<and>
   FillTaskKey (scenarioA_heap 2) \<noteq> FillTaskKey (scenarioA_heap 3)"
proof -
  have run: "[1, 2] \<in> set (batches (snd (ExecuteTasksInDependencyOrder example_env scenarioA_heap
       [3, 1, 2] [3] [])))"
    by (simp add: scheduler_eval scenarioA_heap_def)
  have top: "(3::nat) \<in> set [3]" by simp
  from C3_top_level_tasks_never_dispatched [OF run top] run top show ?thesis by simp
qed

text \<open>
  C9. When the readiness scan yields an empty batch, the loop of
  \<open>ExecuteTasksInDependencyOrder\<close> ends and the function returns without an error and
  without any further call to the executor, whatever the completed set holds: no check
  is made that every task of the collection has been completed.
\<close>

theorem C9_empty_batch_returns_silently:
  "ExecuteTasksInDependencyOrder_scan h allTasks completedTasks [] = ([], completedTasks')
   \<Longrightarrow> ExecuteTasksInDependencyOrder_loop env h allTasks completedTasks tr = (Inr (), tr)"
  by (simp add: ExecuteTasksInDependencyOrder_loop.simps)

theorem C9_empty_batch_returns_silently_witness:
  "ExecuteTasksInDependencyOrder_scan cyclic_heap [1, 2] {} [] = ([], {}) \<and>
   ExecuteTasksInDependencyOrder_loop example_env cyclic_heap [1, 2] {} [] = (Inr (), [])"
proof -
  have scan: "ExecuteTasksInDependencyOrder_scan cyclic_heap [1, 2] {} [] = ([], {})"
    by (simp add: IsAllDependencyCompleted_def hash_search_def FillTaskKey_def
        cyclic_heap_def example_task_def)
  from scan C9_empty_batch_returns_silently [OF scan, of example_env "[]"]
  show ?thesis by simp
qed

section \<open>Properties of the fetch-command synthesis\<close>

lemmas run_eval =
  ExecuteDependedTasks_def ExecuteDependedTasks_adaptive_def
  EnsureNoModificationsHaveBeenDone_def CreateTemporarySchemas_def
  CreateSchemasOnAllWorkers_def SendCommandToAllWorkers_def RemoveTempJobDirs_def
  CreateJobIds_def GenerateCreateSchemasCommand_def GenerateDeleteJobsCommand_def
  GenerateCommand_def makeStringInfo_def appendStringInfo_def MapFetchTaskQueryString_def
  decimal.simps digit_char_def Let_def

lemma same_but_query_refl: "same_but_query h h"
  by (simp add: same_but_query_def)

lemma same_but_query_update: "same_but_query h (h(F := (h F)\<lparr>queryString := q\<rparr>))"
  by (simp add: same_but_query_def)

lemma same_but_query_trans:
  "same_but_query h h1 \<Longrightarrow> same_but_query h1 h2 \<Longrightarrow> same_but_query h h2"
  by (simp add: same_but_query_def)

lemma MapFetchTaskQueryString_same:
  "same_but_query h h1 \<Longrightarrow>
   MapFetchTaskQueryString env h1 F P = MapFetchTaskQueryString env h F P"
  by (cases "taskPlacementList (h P)")
     (simp_all add: same_but_query_def MapFetchTaskQueryString_def Let_def)

lemma MapFetchTaskQueryString_placed:
  "taskPlacementList (h P) = p1 # ps \<Longrightarrow>
   MapFetchTaskQueryString env h F P =
     (if USE_ASSERT_CHECKING env \<and>
         (taskType (h F) \<noteq> MAP_OUTPUT_FETCH_TASK \<or> taskType (h P) \<noteq> MAP_TASK)
      then Inl AssertFailure
      else Inr (format (MAP_OUTPUT_FETCH_COMMAND env)
               [ArgUInt64 (jobId (h P)), ArgUInt32 (taskId (h P)),
                ArgUInt32 (partitionId (h F)), ArgUInt32 (upstreamTaskId (h F)),
                ArgString (nodeName p1), ArgUInt32 (nodePort p1)]))"
  by (simp add: MapFetchTaskQueryString_def Let_def appendStringInfo_def makeStringInfo_def)

lemma Put_result:
  "PutMapOutputFetchQueryStrings env h fs = Inr h' \<Longrightarrow>
     same_but_query h h' \<and> (\<forall>p. p \<notin> set fs \<longrightarrow> h' p = h p) \<and>
     (\<forall>F \<in> set fs. \<exists>P rest. dependedTaskList (h F) = P # rest \<and>
        MapFetchTaskQueryString env h F P = Inr (queryString (h' F)))"
proof (induction fs arbitrary: h)
  case Nil
  then show ?case by (simp add: same_but_query_refl)
next
  case (Cons F fs)
  from Cons.prems obtain P rest q where step:
    "dependedTaskList (h F) = P # rest" "MapFetchTaskQueryString env h F P = Inr q"
    "PutMapOutputFetchQueryStrings env (h(F := (h F)\<lparr>queryString := q\<rparr>)) fs = Inr h'"
    by (auto split: list.splits sum.splits)
  let ?h1 = "h(F := (h F)\<lparr>queryString := q\<rparr>)"
  have s1: "same_but_query h ?h1" by (rule same_but_query_update)
  from Cons.IH [OF step(3)] have ih: "same_but_query ?h1 h'"
    "\<forall>p. p \<notin> set fs \<longrightarrow> h' p = ?h1 p"
    "\<forall>F' \<in> set fs. \<exists>P' rest'. dependedTaskList (?h1 F') = P' # rest' \<and>
        MapFetchTaskQueryString env ?h1 F' P' = Inr (queryString (h' F'))"
    by blast+
  have same: "same_but_query h h'" using s1 ih(1) by (rule same_but_query_trans)
  have deps: "dependedTaskList (?h1 F') = dependedTaskList (h F')" for F'
    using s1 by (simp add: same_but_query_def)
  have tail: "\<forall>F' \<in> set fs. \<exists>P' rest'. dependedTaskList (h F') = P' # rest' \<and>
        MapFetchTaskQueryString env h F' P' = Inr (queryString (h' F'))"
    using ih(3) unfolding deps MapFetchTaskQueryString_same [OF s1] .
  have head: "MapFetchTaskQueryString env h F P = Inr (queryString (h' F))"
  proof (cases "F \<in> set fs")
    case True
    with tail step(1) show ?thesis by auto
  next
    case False
    with ih(2) have "h' F = ?h1 F" by simp
    with step(2) show ?thesis by simp
  qed
  have "\<forall>p. p \<notin> set (F # fs) \<longrightarrow> h' p = h p" using ih(2) by simp
  with same tail head step(1) show ?case by simp
qed

lemma Put_succeeds:
  "\<forall>F \<in> set fs. \<exists>P rest q. dependedTaskList (h F) = P # rest \<and>
      MapFetchTaskQueryString env h F P = Inr q \<Longrightarrow>
   \<exists>h'. PutMapOutputFetchQueryStrings env h fs = Inr h'"
proof (induction fs arbitrary: h)
  case Nil
  then show ?case by simp
next
  case (Cons F fs)
  from Cons.prems obtain P rest q where step:
    "dependedTaskList (h F) = P # rest" "MapFetchTaskQueryString env h F P = Inr q"
    by auto
  let ?h1 = "h(F := (h F)\<lparr>queryString := q\<rparr>)"
  have s1: "same_but_query h ?h1" by (rule same_but_query_update)
  have deps: "dependedTaskList (?h1 F') = dependedTaskList (h F')" for F'
    using s1 by (simp add: same_but_query_def)
  from Cons.prems have "\<forall>F' \<in> set fs. \<exists>P rest q. dependedTaskList (h F') = P # rest \<and>
      MapFetchTaskQueryString env h F' P = Inr q" by simp
  then have "\<forall>F' \<in> set fs. \<exists>P rest q. dependedTaskList (?h1 F') = P # rest \<and>
      MapFetchTaskQueryString env ?h1 F' P = Inr q"
    unfolding deps MapFetchTaskQueryString_same [OF s1] .
  from Cons.IH [OF this] obtain h' where
    "PutMapOutputFetchQueryStrings env ?h1 fs = Inr h'" by blast
  with step show ?case by simp
qed

lemma Put_assert_fails:
  assumes "USE_ASSERT_CHECKING env"
    and "\<forall>F \<in> set fs. \<exists>P rest. dependedTaskList (h F) = P # rest \<and> taskPlacementList (h P) \<noteq> []"
    and "\<exists>F \<in> set fs. \<exists>P rest. dependedTaskList (h F) = P # rest \<and>
           (taskType (h F) \<noteq> MAP_OUTPUT_FETCH_TASK \<or> taskType (h P) \<noteq> MAP_TASK)"
  shows "PutMapOutputFetchQueryStrings env h fs = Inl AssertFailure"
  using assms(2,3)
proof (induction fs arbitrary: h)
  case Nil
  then show ?case by simp
next
  case (Cons F fs)
  from Cons.prems(1) obtain P rest where step:
    "dependedTaskList (h F) = P # rest" "taskPlacementList (h P) \<noteq> []" by auto
  show ?case
  proof (cases "taskType (h F) \<noteq> MAP_OUTPUT_FETCH_TASK \<or> taskType (h P) \<noteq> MAP_TASK")
    case True
    from step(2) obtain p1 ps where "taskPlacementList (h P) = p1 # ps"
      by (cases "taskPlacementList (h P)") simp_all
    from MapFetchTaskQueryString_placed [where h = h and P = P and env = env and F = F, OF this]
      True assms(1)
    have "MapFetchTaskQueryString env h F P = Inl AssertFailure" by simp
    with step(1) show ?thesis by simp
  next
    case False
    from step(2) obtain p1 ps where "taskPlacementList (h P) = p1 # ps"
      by (cases "taskPlacementList (h P)") simp_all
    from MapFetchTaskQueryString_placed [where h = h and P = P and env = env and F = F, OF this]
      False
    obtain q where q: "MapFetchTaskQueryString env h F P = Inr q" by simp
    let ?h1 = "h(F := (h F)\<lparr>queryString := q\<rparr>)"
    have s1: "same_but_query h ?h1" by (rule same_but_query_update)
    then have fields: "dependedTaskList (?h1 p) = dependedTaskList (h p)"
      "taskPlacementList (?h1 p) = taskPlacementList (h p)"
      "taskType (?h1 p) = taskType (h p)" for p
      by (simp_all add: same_but_query_def)
    from Cons.prems(1) have a: "\<forall>F' \<in> set fs. \<exists>P rest. dependedTaskList (?h1 F') = P # rest \<and>
        taskPlacementList (?h1 P) \<noteq> []"
      unfolding fields by simp
    from Cons.prems(2) False step(1) have "\<exists>F' \<in> set fs. \<exists>P rest. dependedTaskList (h F') = P # rest \<and>
           (taskType (h F') \<noteq> MAP_OUTPUT_FETCH_TASK \<or> taskType (h P) \<noteq> MAP_TASK)"
      by auto
    then have b: "\<exists>F' \<in> set fs. \<exists>P rest. dependedTaskList (?h1 F') = P # rest \<and>
           (taskType (?h1 F') \<noteq> MAP_OUTPUT_FETCH_TASK \<or> taskType (?h1 P) \<noteq> MAP_TASK)"
      unfolding fields .
    have "PutMapOutputFetchQueryStrings env ?h1 fs = Inl AssertFailure"
      by (rule Cons.IH [OF a b])
    then show ?thesis by (simp add: step(1) q)
  qed
qed

text \<open>
  C4. For a fetch task F of a well-formed fetch list whose sole dependency is the map
  task P with the placements p1, p2, ..., the synthesis succeeds and F's \<open>queryString\<close>
  becomes the template filled, in this order, with P's jobId, P's taskId, F's
  partitionId, F's upstreamTaskId, p1's node name and p1's node port. The later
  placements do not occur in it.
\<close>

theorem C4_fetch_command_names_first_placement:
  assumes wf: "\<forall>F \<in> set fetchTasks. taskType (h F) = MAP_OUTPUT_FETCH_TASK \<and>
                 (\<exists>P. dependedTaskList (h F) = [P] \<and> taskType (h P) = MAP_TASK \<and>
                      taskPlacementList (h P) \<noteq> [])"
    and F: "F \<in> set fetchTasks"
    and P: "dependedTaskList (h F) = [P]"
    and p1: "taskPlacementList (h P) = p1 # ps"
  shows "\<exists>h'. PutMapOutputFetchQueryStrings env h fetchTasks = Inr h' \<and>
           queryString (h' F) =
             format (MAP_OUTPUT_FETCH_COMMAND env)
               [ArgUInt64 (jobId (h P)), ArgUInt32 (taskId (h P)),
                ArgUInt32 (partitionId (h F)), ArgUInt32 (upstreamTaskId (h F)),
                ArgString (nodeName p1), ArgUInt32 (nodePort p1)]"
proof -
  have "\<forall>F \<in> set fetchTasks. \<exists>P rest q. dependedTaskList (h F) = P # rest \<and>
      MapFetchTaskQueryString env h F P = Inr q"
  proof
    fix G assume "G \<in> set fetchTasks"
    with wf obtain Q where Q: "taskType (h G) = MAP_OUTPUT_FETCH_TASK"
      "dependedTaskList (h G) = [Q]" "taskType (h Q) = MAP_TASK" "taskPlacementList (h Q) \<noteq> []"
      by blast
    from Q(4) obtain q1 qs where "taskPlacementList (h Q) = q1 # qs"
      by (cases "taskPlacementList (h Q)") simp_all
    from MapFetchTaskQueryString_placed [where h = h and P = Q and env = env and F = G, OF this]
      Q(1,3)
    have "\<exists>q. MapFetchTaskQueryString env h G Q = Inr q" by simp
    with Q(2) show "\<exists>P rest q. dependedTaskList (h G) = P # rest \<and>
      MapFetchTaskQueryString env h G P = Inr q" by blast
  qed
  from Put_succeeds [OF this] obtain h' where
    put: "PutMapOutputFetchQueryStrings env h fetchTasks = Inr h'" by blast
  from Put_result [OF put] F P have "MapFetchTaskQueryString env h F P = Inr (queryString (h' F))"
    by auto
  moreover from wf F P p1 have "MapFetchTaskQueryString env h F P =
      Inr (format (MAP_OUTPUT_FETCH_COMMAND env)
               [ArgUInt64 (jobId (h P)), ArgUInt32 (taskId (h P)),
                ArgUInt32 (partitionId (h F)), ArgUInt32 (upstreamTaskId (h F)),
                ArgString (nodeName p1), ArgUInt32 (nodePort p1)])"
    by (auto simp: MapFetchTaskQueryString_placed)
  ultimately show ?thesis using put by simp
qed

theorem C4_fetch_command_names_first_placement_witness:
  "taskType (repartition_heap 2) = MAP_OUTPUT_FETCH_TASK \<and>
   taskType (repartition_heap 1) = MAP_TASK \<and>
   (2::nat) \<in> set [2] \<and> dependedTaskList (repartition_heap 2) = [1] \<and>
   taskPlacementList (repartition_heap 1) =
     \<lparr>nodeName = ''worker-a'', nodePort = 5432\<rparr> # [\<lparr>nodeName = ''worker-b'', nodePort = 5433\<rparr>] \<and>
   (\<exists>h'. PutMapOutputFetchQueryStrings example_env repartition_heap [2] = Inr h' \<and>
         queryString (h' 2) = ''fetch_partition_file(2,1,4,9,worker-a,5432)'')"
proof -
  have wf: "\<forall>F \<in> set [2]. taskType (repartition_heap F) = MAP_OUTPUT_FETCH_TASK \<and>
      (\<exists>P. dependedTaskList (repartition_heap F) = [P] \<and>
           taskType (repartition_heap P) = MAP_TASK \<and>
           taskPlacementList (repartition_heap P) \<noteq> [])"
    by (simp add: repartition_heap_def example_task_def)
  have F: "(2::nat) \<in> set [2]" by simp
  have P: "dependedTaskList (repartition_heap 2) = [1]"
    by (simp add: repartition_heap_def example_task_def)
  have p1: "taskPlacementList (repartition_heap 1) =
     \<lparr>nodeName = ''worker-a'', nodePort = 5432\<rparr> # [\<lparr>nodeName = ''worker-b'', nodePort = 5433\<rparr>]"
    by (simp add: repartition_heap_def example_task_def)
  have cmd: "format (MAP_OUTPUT_FETCH_COMMAND example_env)
               [ArgUInt64 (jobId (repartition_heap 1)), ArgUInt32 (taskId (repartition_heap 1)),
                ArgUInt32 (partitionId (repartition_heap 2)),
                ArgUInt32 (upstreamTaskId (repartition_heap 2)),
                ArgString (nodeName \<lparr>nodeName = ''worker-a'', nodePort = 5432\<rparr>),
                ArgUInt32 (nodePort \<lparr>nodeName = ''worker-a'', nodePort = 5432\<rparr>)]
             = ''fetch_partition_file(2,1,4,9,worker-a,5432)''"
    by (simp add: repartition_heap_def example_task_def example_env_def decimal.simps
        digit_char_def)
  from C4_fetch_command_names_first_placement [OF wf F P p1, of example_env]
  have "\<exists>h'. PutMapOutputFetchQueryStrings example_env repartition_heap [2] = Inr h' \<and>
         queryString (h' 2) = ''fetch_partition_file(2,1,4,9,worker-a,5432)''"
    unfolding cmd .
  moreover have "taskType (repartition_heap 2) = MAP_OUTPUT_FETCH_TASK"
    "taskType (repartition_heap 1) = MAP_TASK"
    by (simp_all add: repartition_heap_def example_task_def)
  ultimately show ?thesis using F P p1 by blast
qed

text \<open>
  C8, as amended. In a build with assertion checking, if every fetch task handed to the
  synthesizer has a non-empty dependency list whose first entry has a placement, and
  some fetch task is not of type output-fetch or its first dependency is not a map
  task, then the synthesis stops with an assertion failure, and
  \<open>ExecuteDependedTasks\<close> of adaptive\_executor\_repartioning.c ends with that failure
  after the tracker cleanup: nothing is broadcast and no batch is dispatched.
\<close>

theorem C8_assertion_failure_only_with_assert_checking:
  assumes "USE_ASSERT_CHECKING env"
    and "\<forall>F \<in> set fetchTasks. \<exists>P rest. dependedTaskList (h F) = P # rest \<and>
           taskPlacementList (h P) \<noteq> []"
    and "\<exists>F \<in> set fetchTasks. \<exists>P rest. dependedTaskList (h F) = P # rest \<and>
           (taskType (h F) \<noteq> MAP_OUTPUT_FETCH_TASK \<or> taskType (h P) \<noteq> MAP_TASK)"
  shows "PutMapOutputFetchQueryStrings env h fetchTasks = Inl AssertFailure \<and>
         (FillTaskGroups_adaptive h (TaskAndExecutionList env topLevelTasks) [] []
            = (fetchTasks, mergeTasks) \<longrightarrow>
          ExecuteDependedTasks_adaptive env h topLevelTasks tr
            = (Inl AssertFailure, tr @ [EvTrackerCleanup]))"
proof -
  from Put_assert_fails [OF assms]
  have "PutMapOutputFetchQueryStrings env h fetchTasks = Inl AssertFailure" .
  then show ?thesis by (simp add: ExecuteDependedTasks_adaptive_def Let_def)
qed

lemma wrong_type_groups:
  "FillTaskGroups_adaptive wrong_type_heap (TaskAndExecutionList wrong_type_env []) [] []
     = ([1], [2])"
  by (simp add: wrong_type_heap_def wrong_type_env_def example_env_def example_task_def)

theorem C8_assertion_failure_only_with_assert_checking_witness:
  "USE_ASSERT_CHECKING wrong_type_env \<and>
   dependedTaskList (wrong_type_heap 1) = [2] \<and>
   taskPlacementList (wrong_type_heap 2) \<noteq> [] \<and>
   taskType (wrong_type_heap 2) \<noteq> MAP_TASK \<and>
   FillTaskGroups_adaptive wrong_type_heap (TaskAndExecutionList wrong_type_env []) [] []
     = ([1], [2]) \<and>
   PutMapOutputFetchQueryStrings wrong_type_env wrong_type_heap [1] = Inl AssertFailure \<and>
   ExecuteDependedTasks_adaptive wrong_type_env wrong_type_heap [] []
     = (Inl AssertFailure, [] @ [EvTrackerCleanup])"
proof -
  have a: "USE_ASSERT_CHECKING wrong_type_env"
    by (simp add: wrong_type_env_def example_env_def)
  have b: "\<forall>F \<in> set [1]. \<exists>P rest. dependedTaskList (wrong_type_heap F) = P # rest \<and>
      taskPlacementList (wrong_type_heap P) \<noteq> []"
    by (simp add: wrong_type_heap_def example_task_def)
  have c: "\<exists>F \<in> set [1]. \<exists>P rest. dependedTaskList (wrong_type_heap F) = P # rest \<and>
      (taskType (wrong_type_heap F) \<noteq> MAP_OUTPUT_FETCH_TASK \<or>
       taskType (wrong_type_heap P) \<noteq> MAP_TASK)"
    by (simp add: wrong_type_heap_def example_task_def)
  have d: "dependedTaskList (wrong_type_heap 1) = [2]"
    "taskPlacementList (wrong_type_heap 2) \<noteq> []"
    "taskType (wrong_type_heap 2) \<noteq> MAP_TASK"
    by (simp_all add: wrong_type_heap_def example_task_def)
  from C8_assertion_failure_only_with_assert_checking [OF a b c, of "[]" "[2]" "[]"]
    wrong_type_groups a d
  show ?thesis by blast
qed

text \<open>
  C8, as stated, fails. With assertion checking on, a fetch task with two entries in
  its dependency list is accepted: the first entry is used, the run returns without an
  error and dispatches [2, 3] and then [1]. With assertion checking off, a fetch task
  whose only dependency is a merge task is accepted as well, and the run dispatches
  [2] and then [1].
\<close>

theorem C8_counterexample:
  "(USE_ASSERT_CHECKING example_env \<and>
    taskType (two_deps_heap 1) = MAP_OUTPUT_FETCH_TASK \<and>
    dependedTaskList (two_deps_heap 1) = [2, 3] \<and>
    \<not> isl (fst (ExecuteDependedTasks_adaptive example_env two_deps_heap [] [])) \<and>
    batches (snd (ExecuteDependedTasks_adaptive example_env two_deps_heap [] [])) = [[2, 3], [1]]) \<and>
   (\<not> USE_ASSERT_CHECKING no_assert_env \<and>
    taskType (wrong_type_heap 1) = MAP_OUTPUT_FETCH_TASK \<and>
    dependedTaskList (wrong_type_heap 1) = [2] \<and>
    taskType (wrong_type_heap 2) = MERGE_TASK \<and>
    \<not> isl (fst (ExecuteDependedTasks_adaptive no_assert_env wrong_type_heap [] [])) \<and>
    batches (snd (ExecuteDependedTasks_adaptive no_assert_env wrong_type_heap [] [])) = [[2], [1]])"
  by (simp add: run_eval scheduler_eval two_deps_heap_def wrong_type_heap_def
      no_assert_env_def wrong_type_env_def)

section \<open>Properties of provisioning and reclamation\<close>

lemma DoesJobIDExist_iff: "DoesJobIDExist jobIds j \<longleftrightarrow> j \<in> set jobIds"
  by (induction jobIds) auto

lemma set_first_seen: "set (first_seen xs) = set xs"
  by (induction xs) auto

lemma distinct_first_seen: "distinct (first_seen xs)"
  by (induction xs) (auto simp: set_first_seen)

lemma CreateJobIds_loop_first_seen:
  "CreateJobIds_loop h ts acc =
     acc @ filter (\<lambda>y. y \<notin> set acc) (first_seen (map (\<lambda>p. jobId (h p)) ts))"
proof (induction ts arbitrary: acc)
  case Nil
  then show ?case by simp
next
  case (Cons t ts)
  let ?j = "jobId (h t)"
  let ?rest = "first_seen (map (\<lambda>p. jobId (h p)) ts)"
  show ?case
  proof (cases "?j \<in> set acc")
    case True
    then have "filter (\<lambda>y. y \<notin> set acc) (filter (\<lambda>y. y \<noteq> ?j) ?rest) = filter (\<lambda>y. y \<notin> set acc) ?rest"
      by (auto intro: filter_cong)
    with True Cons.IH [of acc] show ?thesis by (simp add: DoesJobIDExist_iff)
  next
    case False
    have "filter (\<lambda>y. y \<notin> set (acc @ [?j])) ?rest
        = filter (\<lambda>y. y \<notin> set acc) (filter (\<lambda>y. y \<noteq> ?j) ?rest)"
      by (auto intro: filter_cong)
    with False Cons.IH [of "acc @ [?j]"] show ?thesis by (simp add: DoesJobIDExist_iff)
  qed
qed

lemma CreateJobIds_first_seen:
  "CreateJobIds h mergeTasks = first_seen (map (\<lambda>p. jobId (h p)) mergeTasks)"
  by (simp add: CreateJobIds_def CreateJobIds_loop_first_seen)

lemma GenerateCommand_loop_concat:
  "GenerateCommand_loop jobIds templ buf =
     buf @ concat (map (\<lambda>j. format templ [ArgUInt64 j]) jobIds)"
  by (induction jobIds arbitrary: buf) (simp_all add: appendStringInfo_def)

lemma GenerateCommand_concat:
  "GenerateCommand jobIds templ = concat (map (\<lambda>j. format templ [ArgUInt64 j]) jobIds)"
  by (simp add: GenerateCommand_def GenerateCommand_loop_concat makeStringInfo_def)

text \<open>
  C5. The job ids collected from the merge tasks are the distinct job ids of those
  tasks in the order of first occurrence, without duplicates, and the provisioning
  command is the concatenation of one create statement per collected job id, in that
  order. For the job ids [5, 5, 7] the statements are those for 5 and 7.
\<close>

theorem C5_one_create_statement_per_distinct_job:
  "CreateJobIds h mergeTasks = first_seen (map (\<lambda>p. jobId (h p)) mergeTasks) \<and>
   distinct (CreateJobIds h mergeTasks) \<and>
   set (CreateJobIds h mergeTasks) = (\<lambda>p. jobId (h p)) ` set mergeTasks \<and>
   GenerateCreateSchemasCommand env (CreateJobIds h mergeTasks) =
     concat (map (\<lambda>j. format (WORKER_CREATE_SCHEMA_QUERY env) [ArgUInt64 j])
               (CreateJobIds h mergeTasks))"
  by (simp add: CreateJobIds_first_seen distinct_first_seen set_first_seen
      GenerateCreateSchemasCommand_def GenerateCommand_concat)

lemma scenario_C_job_ids: "CreateJobIds scenarioC_heap [1, 2, 3] = [5, 7]"
  by (simp add: CreateJobIds_def scenarioC_heap_def example_task_def)

theorem C5_one_create_statement_per_distinct_job_witness:
  "map (\<lambda>p. jobId (scenarioC_heap p)) [1, 2, 3] = [5, 5, 7] \<and>
   CreateJobIds scenarioC_heap [1, 2, 3] = [5, 7] \<and>
   GenerateCreateSchemasCommand example_env (CreateJobIds scenarioC_heap [1, 2, 3]) =
     ''create_schema(5);create_schema(7);''"
proof -
  have ids: "map (\<lambda>p. jobId (scenarioC_heap p)) [1, 2, 3] = [5, 5, 7]"
    by (simp add: scenarioC_heap_def example_task_def)
  have stmt: "concat (map (\<lambda>j. format (WORKER_CREATE_SCHEMA_QUERY example_env) [ArgUInt64 j])
      [5, 7]) = ''create_schema(5);create_schema(7);''"
    by (simp add: example_env_def decimal.simps digit_char_def)
  from C5_one_create_statement_per_distinct_job [of scenarioC_heap "[1, 2, 3]" example_env]
  have "GenerateCreateSchemasCommand example_env (CreateJobIds scenarioC_heap [1, 2, 3]) =
     concat (map (\<lambda>j. format (WORKER_CREATE_SCHEMA_QUERY example_env) [ArgUInt64 j])
               (CreateJobIds scenarioC_heap [1, 2, 3]))"
    by blast
  with stmt scenario_C_job_ids ids show ?thesis by simp
qed

lemma take_one_Cons: "take 1 (x # xs) = [x]"
  by simp

lemma attempted_Nil: "attempted ok [] = []"
  by (simp add: attempted_def)

lemma attempted_Cons:
  "attempted ok (w # ws) = (if ok w then w # attempted ok ws else [w])"
  by (simp add: attempted_def)

lemma attempted_all_ok: "list_all ok ws \<Longrightarrow> attempted ok ws = ws"
  by (induction ws) (simp_all add: attempted_Nil attempted_Cons)

lemma sends_Cons:
  "sends env cmds (w # ws) =
     EvSend (workerName w) (workerPort w) (CitusExtensionOwnerName env) cmds # sends env cmds ws"
  by (simp add: sends_def)

lemma send_loop_attempted:
  "SendCommandToAllWorkers_loop env (CitusExtensionOwnerName env) ws cmds tr =
     (if list_all (send_ok env cmds) ws then Inr () else Inl BroadcastFailure,
      tr @ sends env cmds (attempted (send_ok env cmds) ws))"
proof (induction ws arbitrary: tr)
  case Nil
  then show ?case by (simp add: attempted_Nil sends_def)
next
  case (Cons w ws)
  show ?case
  proof (cases "send_ok env cmds w")
    case True
    then have "SendCommandList_ok env (workerName w) (workerPort w)
        (CitusExtensionOwnerName env) cmds" by (simp add: send_ok_def)
    with True Cons.IH show ?thesis by (simp add: attempted_Cons sends_Cons)
  next
    case False
    then have "\<not> SendCommandList_ok env (workerName w) (workerPort w)
        (CitusExtensionOwnerName env) cmds" by (simp add: send_ok_def)
    with False show ?thesis by (simp add: attempted_Cons sends_Cons sends_def)
  qed
qed

lemma SendCommandToAllWorkers_attempted:
  "SendCommandToAllWorkers env cmds tr =
     (if list_all (send_ok env cmds) (ActiveReadableNodeList env tr) then Inr ()
      else Inl BroadcastFailure,
      tr @ sends env cmds (attempted (send_ok env cmds) (ActiveReadableNodeList env tr)))"
  by (simp add: SendCommandToAllWorkers_def Let_def send_loop_attempted)

lemma batches_sends: "batches (sends env cmds ws) = []"
  by (induction ws) (simp_all add: sends_def)

lemma broadcasts_sends:
  "broadcasts (sends env cmds ws) =
     map (\<lambda>w. (workerName w, workerPort w, CitusExtensionOwnerName env, cmds)) ws"
  by (induction ws) (simp_all add: sends_def)

text \<open>
  C10, as amended. The provisioning phase reads the list of active readable nodes once
  and sends the one-command list, in list order and once each, to every node up to and
  including the first one whose send fails; no node after a failing one is contacted
  and the phase then ends with the failure. When no send fails, every node of the list
  is sent the command list exactly once and the job ids are returned, whatever the
  number of distinct job ids; with no merge task the command is the empty string.
\<close>

theorem C10_provisioning_contacts_nodes_up_to_first_failure:
  assumes "jobIds = CreateJobIds h mergeTasks"
    and "command = GenerateCreateSchemasCommand env jobIds"
    and "workers = ActiveReadableNodeList env tr"
  shows "CreateTemporarySchemas env h mergeTasks tr =
           (if list_all (send_ok env [command]) workers then Inr jobIds
            else Inl BroadcastFailure,
            tr @ sends env [command] (attempted (send_ok env [command]) workers)) \<and>
         (list_all (send_ok env [command]) workers \<longrightarrow>
            attempted (send_ok env [command]) workers = workers) \<and>
         (mergeTasks = [] \<longrightarrow> command = [])"
proof -
  have "mergeTasks = [] \<longrightarrow> command = []"
    using assms(1,2)
    by (simp add: GenerateCreateSchemasCommand_def GenerateCommand_def CreateJobIds_def
        makeStringInfo_def)
  moreover have "CreateTemporarySchemas env h mergeTasks tr =
           (if list_all (send_ok env [command]) workers then Inr jobIds
            else Inl BroadcastFailure,
            tr @ sends env [command] (attempted (send_ok env [command]) workers))"
    using assms
    by (simp add: CreateTemporarySchemas_def CreateSchemasOnAllWorkers_def Let_def
        SendCommandToAllWorkers_attempted)
  ultimately show ?thesis by (simp add: attempted_all_ok)
qed

theorem C10_provisioning_contacts_nodes_up_to_first_failure_witness:
  "CreateTemporarySchemas example_env scenarioC_heap [] [] =
     (Inr [], [EvSend ''worker-a'' 5432 ''postgres'' [''''],
               EvSend ''worker-b'' 5433 ''postgres'' ['''']]) \<and>
   CreateTemporarySchemas send_failing_env scenarioC_heap [] [] =
     (Inl BroadcastFailure, [EvSend ''worker-a'' 5432 ''postgres'' ['''']])"
proof -
  have j: "[] = CreateJobIds scenarioC_heap []" by (simp add: CreateJobIds_def)
  have c: "[] = GenerateCreateSchemasCommand example_env []"
    "[] = GenerateCreateSchemasCommand send_failing_env []"
    by (simp_all add: GenerateCreateSchemasCommand_def GenerateCommand_def makeStringInfo_def)
  have w: "[\<lparr>workerName = ''worker-a'', workerPort = 5432\<rparr>,
            \<lparr>workerName = ''worker-b'', workerPort = 5433\<rparr>]
           = ActiveReadableNodeList example_env []"
    "[\<lparr>workerName = ''worker-a'', workerPort = 5432\<rparr>,
      \<lparr>workerName = ''worker-b'', workerPort = 5433\<rparr>]
           = ActiveReadableNodeList send_failing_env []"
    by (simp_all add: example_env_def send_failing_env_def repartition_env_def)
  from C10_provisioning_contacts_nodes_up_to_first_failure [OF j c(1) w(1)]
  have ok: "CreateTemporarySchemas example_env scenarioC_heap [] [] =
     (Inr [], [EvSend ''worker-a'' 5432 ''postgres'' [''''],
               EvSend ''worker-b'' 5433 ''postgres'' ['''']])"
    by (simp add: send_ok_def attempted_Nil attempted_Cons sends_def example_env_def)
  from C10_provisioning_contacts_nodes_up_to_first_failure [OF j c(2) w(2)]
  have bad: "CreateTemporarySchemas send_failing_env scenarioC_heap [] [] =
     (Inl BroadcastFailure, [EvSend ''worker-a'' 5432 ''postgres'' ['''']])"
    by (simp add: send_ok_def attempted_Nil attempted_Cons sends_def send_failing_env_def
        repartition_env_def example_env_def)
  from ok bad show ?thesis by simp
qed

text \<open>
  C10, as stated, fails: worker-a and worker-b are both active and readable, the send
  to worker-a fails, and worker-b receives no command list at all.
\<close>

theorem C10_counterexample:
  "ActiveReadableNodeList send_failing_env [] =
     [\<lparr>workerName = ''worker-a'', workerPort = 5432\<rparr>,
      \<lparr>workerName = ''worker-b'', workerPort = 5433\<rparr>] \<and>
   broadcasts (snd (CreateTemporarySchemas send_failing_env scenarioC_heap [] [])) =
     [(''worker-a'', 5432, ''postgres'', [''''])]"
  by (simp add: run_eval send_failing_env_def repartition_env_def example_env_def)

text \<open>
  C6. If a modification has been done earlier in the transaction,
  \<open>ExecuteDependedTasks\<close> of repartition\_logic.c ends with the error of the guard and
  the list of calls is unchanged: no command is sent to any worker and no batch is
  dispatched.
\<close>

theorem C6_prior_modification_fails_before_any_broadcast:
  "modificationsDone env \<Longrightarrow>
   ExecuteDependedTasks env h topLevelTasks tr = (Inl PriorModification, tr)"
  by (simp add: ExecuteDependedTasks_def EnsureNoModificationsHaveBeenDone_def)

theorem C6_prior_modification_fails_before_any_broadcast_witness:
  "modificationsDone (example_env\<lparr>modificationsDone := True\<rparr>) \<and>
   ExecuteDependedTasks (example_env\<lparr>modificationsDone := True\<rparr>) scenarioA_heap [3] []
     = (Inl PriorModification, [])"
  using C6_prior_modification_fails_before_any_broadcast
    [of "example_env\<lparr>modificationsDone := True\<rparr>" scenarioA_heap "[3]" "[]"]
  by simp

lemma failing_run:
  "ExecuteDependedTasks failing_env repartition_heap [4] [] =
     (Inl RemoteExecutionFailure,
      [EvSend ''worker-a'' 5432 ''postgres'' [''create_schema(2);''],
       EvSend ''worker-b'' 5433 ''postgres'' [''create_schema(2);''],
       EvExecute [1] 16])"
  by (simp add: run_eval scheduler_eval failing_env_def repartition_env_def repartition_heap_def)

lemma successful_run:
  "ExecuteDependedTasks repartition_env repartition_heap [4] [] =
     (Inr (),
      [EvSend ''worker-a'' 5432 ''postgres'' [''create_schema(2);''],
       EvSend ''worker-b'' 5433 ''postgres'' [''create_schema(2);''],
       EvExecute [1] 16, EvExecute [2] 16, EvExecute [3] 16,
       EvSend ''worker-a'' 5432 ''postgres'' [''cleanup_job(2);''],
       EvSend ''worker-b'' 5433 ''postgres'' [''cleanup_job(2);'']])"
  by (simp add: run_eval scheduler_eval repartition_env_def repartition_heap_def)

lemma provisioning_failed_run:
  "ExecuteDependedTasks send_failing_env repartition_heap [4] [] =
     (Inl BroadcastFailure,
      [EvSend ''worker-a'' 5432 ''postgres'' [''create_schema(2);'']])"
  by (simp add: run_eval scheduler_eval send_failing_env_def repartition_env_def
      repartition_heap_def)

text \<open>
  C7. A run of \<open>ExecuteDependedTasks\<close> of repartition\_logic.c makes exactly these
  calls. If the guard fails, none. If a provisioning send fails, the provisioning sends
  up to that one, and the run ends with the broadcast failure: no batch and no
  reclamation. Otherwise the provisioning sends and then the batches of the scheduler.
  If the scheduler ends with an error, the failed batch is the last call of the run,
  every earlier batch succeeded, and the run ends with the execution failure: no later
  batch and no reclamation. Only if the scheduler returns without an error do the
  reclamation sends follow, and their command is built from the job ids the
  provisioning phase computed.
\<close>

theorem C7_reclamation_only_after_successful_scheduling:
  assumes run: "ExecuteDependedTasks env h topLevelTasks [] = (r, tr)"
    and all: "allTasks = TaskAndExecutionList env topLevelTasks"
    and jobs: "jobIds = CreateJobIds h (FillTaskGroups h allTasks [])"
    and create: "create = [GenerateCreateSchemasCommand env jobIds]"
    and delete: "delete = [GenerateDeleteJobsCommand env jobIds]"
    and workers: "workers = ActiveReadableNodeList env []"
  shows "(modificationsDone env \<longrightarrow> r = Inl PriorModification \<and> tr = []) \<and>
         (\<not> modificationsDone env \<and> \<not> list_all (send_ok env create) workers \<longrightarrow>
            r = Inl BroadcastFailure \<and>
            tr = sends env create (attempted (send_ok env create) workers)) \<and>
         (\<not> modificationsDone env \<and> list_all (send_ok env create) workers \<longrightarrow>
            (\<exists>rs bs.
               ExecuteTasksInDependencyOrder env h allTasks topLevelTasks
                   (sends env create workers)
                 = (rs, sends env create workers
                        @ map (\<lambda>b. EvExecute b (MaxAdaptiveExecutorPoolSize env)) bs) \<and>
               (rs \<noteq> Inr () \<longrightarrow>
                  rs = Inl RemoteExecutionFailure \<and> bs \<noteq> [] \<and>
                  \<not> ExecuteTaskList_ok env (last bs) \<and>
                  (\<forall>b \<in> set (butlast bs). ExecuteTaskList_ok env b) \<and>
                  r = Inl RemoteExecutionFailure \<and>
                  tr = sends env create workers
                       @ map (\<lambda>b. EvExecute b (MaxAdaptiveExecutorPoolSize env)) bs) \<and>
               (rs = Inr () \<longrightarrow>
                  (\<forall>b \<in> set bs. ExecuteTaskList_ok env b) \<and>
                  r = (if list_all (send_ok env delete)
                            (ActiveReadableNodeList env
                               (sends env create workers
                                @ map (\<lambda>b. EvExecute b (MaxAdaptiveExecutorPoolSize env)) bs))
                       then Inr () else Inl BroadcastFailure) \<and>
                  tr = sends env create workers
                       @ map (\<lambda>b. EvExecute b (MaxAdaptiveExecutorPoolSize env)) bs
                       @ sends env delete
                           (attempted (send_ok env delete)
                              (ActiveReadableNodeList env
                                 (sends env create workers
                                  @ map (\<lambda>b. EvExecute b (MaxAdaptiveExecutorPoolSize env))
                                      bs))))))"
proof -
  let ?n = "MaxAdaptiveExecutorPoolSize env"
  have prov: "CreateTemporarySchemas env h (FillTaskGroups h allTasks []) [] =
      (if list_all (send_ok env create) workers then Inr jobIds else Inl BroadcastFailure,
       sends env create (attempted (send_ok env create) workers))"
    using jobs create workers
    by (simp add: CreateTemporarySchemas_def CreateSchemasOnAllWorkers_def Let_def
        SendCommandToAllWorkers_attempted)
  show ?thesis
  proof (cases "modificationsDone env")
    case True
    with run have "r = Inl PriorModification" "tr = []"
      by (simp_all add: ExecuteDependedTasks_def EnsureNoModificationsHaveBeenDone_def)
    with True show ?thesis by simp
  next
    case guard: False
    show ?thesis
    proof (cases "list_all (send_ok env create) workers")
      case False
      with run guard prov all have "r = Inl BroadcastFailure"
        "tr = sends env create (attempted (send_ok env create) workers)"
        by (simp_all add: ExecuteDependedTasks_def EnsureNoModificationsHaveBeenDone_def
            Let_def)
      with guard False show ?thesis by simp
    next
      case allok: True
      let ?tr1 = "sends env create workers"
      from allok prov have prov': "CreateTemporarySchemas env h (FillTaskGroups h allTasks []) []
          = (Inr jobIds, ?tr1)"
        by (simp add: attempted_all_ok)
      obtain rs tr2 where sched:
        "ExecuteTasksInDependencyOrder env h allTasks topLevelTasks ?tr1 = (rs, tr2)"
        by (cases "ExecuteTasksInDependencyOrder env h allTasks topLevelTasks ?tr1")
      then have "ExecuteTasksInDependencyOrder_loop env h allTasks
          (AddCompletedTasks h topLevelTasks CreateTaskHashTable) ?tr1 = (rs, tr2)"
        by (simp add: ExecuteTasksInDependencyOrder_def)
      from loop_invariant [OF this] obtain bs where bs:
        "tr2 = ?tr1 @ map (\<lambda>b. EvExecute b ?n) bs"
        "rs = Inr () \<longrightarrow> (\<forall>b \<in> set bs. ExecuteTaskList_ok env b)"
        "rs \<noteq> Inr () \<longrightarrow> rs = Inl RemoteExecutionFailure \<and> bs \<noteq> [] \<and>
           \<not> ExecuteTaskList_ok env (last bs) \<and> (\<forall>b \<in> set (butlast bs). ExecuteTaskList_ok env b)"
        by blast
      have fail: "rs \<noteq> Inr () \<longrightarrow> r = Inl RemoteExecutionFailure \<and> tr = tr2"
      proof
        assume "rs \<noteq> Inr ()"
        with bs(3) have "rs = Inl RemoteExecutionFailure" by simp
        with run guard prov' sched all show "r = Inl RemoteExecutionFailure \<and> tr = tr2"
          by (simp add: ExecuteDependedTasks_def EnsureNoModificationsHaveBeenDone_def Let_def)
      qed
      have succ: "rs = Inr () \<longrightarrow>
          r = (if list_all (send_ok env delete) (ActiveReadableNodeList env tr2)
               then Inr () else Inl BroadcastFailure) \<and>
          tr = tr2 @ sends env delete
                 (attempted (send_ok env delete) (ActiveReadableNodeList env tr2))"
      proof
        assume "rs = Inr ()"
        with run guard prov' sched all have "RemoveTempJobDirs env jobIds tr2 = (r, tr)"
          by (simp add: ExecuteDependedTasks_def EnsureNoModificationsHaveBeenDone_def Let_def)
        then show "r = (if list_all (send_ok env delete) (ActiveReadableNodeList env tr2)
               then Inr () else Inl BroadcastFailure) \<and>
          tr = tr2 @ sends env delete
                 (attempted (send_ok env delete) (ActiveReadableNodeList env tr2))"
          using delete
          by (auto simp: RemoveTempJobDirs_def SendCommandToAllWorkers_attempted)
      qed
      have "ExecuteTasksInDependencyOrder env h allTasks topLevelTasks ?tr1
              = (rs, ?tr1 @ map (\<lambda>b. EvExecute b ?n) bs) \<and>
            (rs \<noteq> Inr () \<longrightarrow>
               rs = Inl RemoteExecutionFailure \<and> bs \<noteq> [] \<and>
               \<not> ExecuteTaskList_ok env (last bs) \<and>
               (\<forall>b \<in> set (butlast bs). ExecuteTaskList_ok env b) \<and>
               r = Inl RemoteExecutionFailure \<and>
               tr = ?tr1 @ map (\<lambda>b. EvExecute b ?n) bs) \<and>
            (rs = Inr () \<longrightarrow>
               (\<forall>b \<in> set bs. ExecuteTaskList_ok env b) \<and>
               r = (if list_all (send_ok env delete)
                         (ActiveReadableNodeList env (?tr1 @ map (\<lambda>b. EvExecute b ?n) bs))
                    then Inr () else Inl BroadcastFailure) \<and>
               tr = ?tr1 @ map (\<lambda>b. EvExecute b ?n) bs
                    @ sends env delete
                        (attempted (send_ok env delete)
                           (ActiveReadableNodeList env (?tr1 @ map (\<lambda>b. EvExecute b ?n) bs))))"
        using sched bs fail succ by simp
      then have "\<exists>rs bs.
            ExecuteTasksInDependencyOrder env h allTasks topLevelTasks ?tr1
              = (rs, ?tr1 @ map (\<lambda>b. EvExecute b ?n) bs) \<and>
            (rs \<noteq> Inr () \<longrightarrow>
               rs = Inl RemoteExecutionFailure \<and> bs \<noteq> [] \<and>
               \<not> ExecuteTaskList_ok env (last bs) \<and>
               (\<forall>b \<in> set (butlast bs). ExecuteTaskList_ok env b) \<and>
               r = Inl RemoteExecutionFailure \<and>
               tr = ?tr1 @ map (\<lambda>b. EvExecute b ?n) bs) \<and>
            (rs = Inr () \<longrightarrow>
               (\<forall>b \<in> set bs. ExecuteTaskList_ok env b) \<and>
               r = (if list_all (send_ok env delete)
                         (ActiveReadableNodeList env (?tr1 @ map (\<lambda>b. EvExecute b ?n) bs))
                    then Inr () else Inl BroadcastFailure) \<and>
               tr = ?tr1 @ map (\<lambda>b. EvExecute b ?n) bs
                    @ sends env delete
                        (attempted (send_ok env delete)
                           (ActiveReadableNodeList env (?tr1 @ map (\<lambda>b. EvExecute b ?n) bs))))"
        by blast
      with guard allok show ?thesis by simp
    qed
  qed
qed

theorem C7_reclamation_only_after_successful_scheduling_witness:
  "ExecuteDependedTasks send_failing_env repartition_heap [4] [] =
     (Inl BroadcastFailure,
      sends send_failing_env [''create_schema(2);'']
        (attempted (send_ok send_failing_env [''create_schema(2);''])
           [\<lparr>workerName = ''worker-a'', workerPort = 5432\<rparr>,
       \<lparr>workerName = ''worker-b'', workerPort = 5433\<rparr>])) \<and>
   (\<exists>bs. ExecuteDependedTasks failing_env repartition_heap [4] [] =
      (Inl RemoteExecutionFailure,
       sends failing_env [''create_schema(2);'']
         [\<lparr>workerName = ''worker-a'', workerPort = 5432\<rparr>,
       \<lparr>workerName = ''worker-b'', workerPort = 5433\<rparr>]
       @ map (\<lambda>b. EvExecute b (MaxAdaptiveExecutorPoolSize failing_env)) bs) \<and>
      bs \<noteq> [] \<and> \<not> ExecuteTaskList_ok failing_env (last bs)) \<and>
   (\<exists>bs. ExecuteDependedTasks repartition_env repartition_heap [4] [] =
      (Inr (),
       sends repartition_env [''create_schema(2);'']
         [\<lparr>workerName = ''worker-a'', workerPort = 5432\<rparr>,
       \<lparr>workerName = ''worker-b'', workerPort = 5433\<rparr>]
       @ map (\<lambda>b. EvExecute b (MaxAdaptiveExecutorPoolSize repartition_env)) bs
       @ sends repartition_env [''cleanup_job(2);'']
           [\<lparr>workerName = ''worker-a'', workerPort = 5432\<rparr>,
       \<lparr>workerName = ''worker-b'', workerPort = 5433\<rparr>]) \<and>
      list_all (ExecuteTaskList_ok repartition_env) bs)"
proof -
  let ?ws = "[\<lparr>workerName = ''worker-a'', workerPort = 5432\<rparr>,
       \<lparr>workerName = ''worker-b'', workerPort = 5433\<rparr>]"
  have all1: "[4, 3, 2, 1] = TaskAndExecutionList send_failing_env [4]"
    by (simp add: send_failing_env_def repartition_env_def example_env_def)
  have jobs1: "[2] = CreateJobIds repartition_heap (FillTaskGroups repartition_heap [4, 3, 2, 1] [])"
    by (simp add: CreateJobIds_def repartition_heap_def example_task_def)
  have create1: "[''create_schema(2);''] = [GenerateCreateSchemasCommand send_failing_env [2]]"
    by (simp add: run_eval send_failing_env_def repartition_env_def example_env_def)
  have delete1: "[''cleanup_job(2);''] = [GenerateDeleteJobsCommand send_failing_env [2]]"
    by (simp add: run_eval send_failing_env_def repartition_env_def example_env_def)
  have workers1: "[\<lparr>workerName = ''worker-a'', workerPort = 5432\<rparr>,
       \<lparr>workerName = ''worker-b'', workerPort = 5433\<rparr>]
      = ActiveReadableNodeList send_failing_env []"
    by (simp add: send_failing_env_def repartition_env_def example_env_def)
  have guard1: "\<not> modificationsDone send_failing_env"
    by (simp add: send_failing_env_def repartition_env_def example_env_def)
  have bad1: "\<not> list_all (send_ok send_failing_env [''create_schema(2);'']) ?ws"
    by (simp add: send_ok_def send_failing_env_def repartition_env_def example_env_def)
  from C7_reclamation_only_after_successful_scheduling
    [OF provisioning_failed_run all1 jobs1 create1 delete1 workers1] guard1 bad1
  have "Inl BroadcastFailure = (Inl BroadcastFailure :: error + unit) \<and>
     [EvSend ''worker-a'' 5432 ''postgres'' [''create_schema(2);'']] =
       sends send_failing_env [''create_schema(2);'']
         (attempted (send_ok send_failing_env [''create_schema(2);'']) ?ws)"
    by blast
  with provisioning_failed_run have one:
    "ExecuteDependedTasks send_failing_env repartition_heap [4] [] =
     (Inl BroadcastFailure,
      sends send_failing_env [''create_schema(2);'']
        (attempted (send_ok send_failing_env [''create_schema(2);'']) ?ws))"
    by simp
  have all2: "[4, 3, 2, 1] = TaskAndExecutionList failing_env [4]"
    by (simp add: failing_env_def repartition_env_def example_env_def)
  have jobs2: "[2] = CreateJobIds repartition_heap (FillTaskGroups repartition_heap [4, 3, 2, 1] [])"
    by (simp add: CreateJobIds_def repartition_heap_def example_task_def)
  have create2: "[''create_schema(2);''] = [GenerateCreateSchemasCommand failing_env [2]]"
    by (simp add: run_eval failing_env_def repartition_env_def example_env_def)
  have delete2: "[''cleanup_job(2);''] = [GenerateDeleteJobsCommand failing_env [2]]"
    by (simp add: run_eval failing_env_def repartition_env_def example_env_def)
  have workers2: "[\<lparr>workerName = ''worker-a'', workerPort = 5432\<rparr>,
       \<lparr>workerName = ''worker-b'', workerPort = 5433\<rparr>]
      = ActiveReadableNodeList failing_env []"
    by (simp add: failing_env_def repartition_env_def example_env_def)
  have guard2: "\<not> modificationsDone failing_env"
    by (simp add: failing_env_def repartition_env_def example_env_def)
  have ok2: "list_all (send_ok failing_env [''create_schema(2);'']) ?ws"
    by (simp add: send_ok_def failing_env_def repartition_env_def example_env_def)
  from C7_reclamation_only_after_successful_scheduling
    [OF failing_run all2 jobs2 create2 delete2 workers2] guard2 ok2
  obtain rs bs where two:
    "rs \<noteq> Inr () \<longrightarrow>
       rs = Inl RemoteExecutionFailure \<and> bs \<noteq> [] \<and>
       \<not> ExecuteTaskList_ok failing_env (last bs) \<and>
       (\<forall>b \<in> set (butlast bs). ExecuteTaskList_ok failing_env b) \<and>
       (Inl RemoteExecutionFailure :: error + unit) = Inl RemoteExecutionFailure \<and>
       [EvSend ''worker-a'' 5432 ''postgres'' [''create_schema(2);''],
        EvSend ''worker-b'' 5433 ''postgres'' [''create_schema(2);''],
        EvExecute [1] 16]
       = sends failing_env [''create_schema(2);''] ?ws
         @ map (\<lambda>b. EvExecute b (MaxAdaptiveExecutorPoolSize failing_env)) bs"
    "rs = Inr () \<longrightarrow>
       (Inl RemoteExecutionFailure :: error + unit) =
         (if list_all (send_ok failing_env [''cleanup_job(2);''])
               (ActiveReadableNodeList failing_env
                  (sends failing_env [''create_schema(2);''] ?ws
                   @ map (\<lambda>b. EvExecute b (MaxAdaptiveExecutorPoolSize failing_env)) bs))
          then Inr () else Inl BroadcastFailure)"
    by blast
  from two(2) have "rs \<noteq> Inr ()" by (auto split: if_splits)
  with two(1) failing_run have "ExecuteDependedTasks failing_env repartition_heap [4] [] =
      (Inl RemoteExecutionFailure,
       sends failing_env [''create_schema(2);''] ?ws
       @ map (\<lambda>b. EvExecute b (MaxAdaptiveExecutorPoolSize failing_env)) bs) \<and>
      bs \<noteq> [] \<and> \<not> ExecuteTaskList_ok failing_env (last bs)"
    by simp
  then have two': "\<exists>bs. ExecuteDependedTasks failing_env repartition_heap [4] [] =
      (Inl RemoteExecutionFailure,
       sends failing_env [''create_schema(2);''] ?ws
       @ map (\<lambda>b. EvExecute b (MaxAdaptiveExecutorPoolSize failing_env)) bs) \<and>
      bs \<noteq> [] \<and> \<not> ExecuteTaskList_ok failing_env (last bs)"
    by blast
  have all3: "[4, 3, 2, 1] = TaskAndExecutionList repartition_env [4]"
    by (simp add: repartition_env_def repartition_env_def example_env_def)
  have jobs3: "[2] = CreateJobIds repartition_heap (FillTaskGroups repartition_heap [4, 3, 2, 1] [])"
    by (simp add: CreateJobIds_def repartition_heap_def example_task_def)
  have create3: "[''create_schema(2);''] = [GenerateCreateSchemasCommand repartition_env [2]]"
    by (simp add: run_eval repartition_env_def repartition_env_def example_env_def)
  have delete3: "[''cleanup_job(2);''] = [GenerateDeleteJobsCommand repartition_env [2]]"
    by (simp add: run_eval repartition_env_def repartition_env_def example_env_def)
  have workers3: "[\<lparr>workerName = ''worker-a'', workerPort = 5432\<rparr>,
       \<lparr>workerName = ''worker-b'', workerPort = 5433\<rparr>]
      = ActiveReadableNodeList repartition_env []"
    by (simp add: repartition_env_def repartition_env_def example_env_def)
  have guard3: "\<not> modificationsDone repartition_env"
    by (simp add: repartition_env_def repartition_env_def example_env_def)
  have ok3: "list_all (send_ok repartition_env [''create_schema(2);'']) ?ws"
    by (simp add: send_ok_def repartition_env_def example_env_def)
  from C7_reclamation_only_after_successful_scheduling
    [OF successful_run all3 jobs3 create3 delete3 workers3] guard3 ok3
  obtain rs' bs' where three:
    "rs' \<noteq> Inr () \<longrightarrow> (Inr () :: error + unit) = Inl RemoteExecutionFailure"
    "rs' = Inr () \<longrightarrow>
       (\<forall>b \<in> set bs'. ExecuteTaskList_ok repartition_env b) \<and>
       [EvSend ''worker-a'' 5432 ''postgres'' [''create_schema(2);''],
        EvSend ''worker-b'' 5433 ''postgres'' [''create_schema(2);''],
        EvExecute [1] 16, EvExecute [2] 16, EvExecute [3] 16,
        EvSend ''worker-a'' 5432 ''postgres'' [''cleanup_job(2);''],
        EvSend ''worker-b'' 5433 ''postgres'' [''cleanup_job(2);'']]
       = sends repartition_env [''create_schema(2);''] ?ws
         @ map (\<lambda>b. EvExecute b (MaxAdaptiveExecutorPoolSize repartition_env)) bs'
         @ sends repartition_env [''cleanup_job(2);'']
             (attempted (send_ok repartition_env [''cleanup_job(2);''])
                (ActiveReadableNodeList repartition_env
                   (sends repartition_env [''create_schema(2);''] ?ws
                    @ map (\<lambda>b. EvExecute b (MaxAdaptiveExecutorPoolSize repartition_env))
                        bs')))"
    by blast
  from three(1) have rs': "rs' = Inr ()" by auto
  have att: "attempted (send_ok repartition_env [''cleanup_job(2);''])
                (ActiveReadableNodeList repartition_env calls) = ?ws" for calls
    by (simp add: attempted_Nil attempted_Cons send_ok_def repartition_env_def example_env_def)
  from three(2) rs' successful_run
  have "ExecuteDependedTasks repartition_env repartition_heap [4] [] =
      (Inr (),
       sends repartition_env [''create_schema(2);''] ?ws
       @ map (\<lambda>b. EvExecute b (MaxAdaptiveExecutorPoolSize repartition_env)) bs'
       @ sends repartition_env [''cleanup_job(2);''] ?ws) \<and>
      list_all (ExecuteTaskList_ok repartition_env) bs'"
    unfolding att list_all_iff by simp
  then have three': "\<exists>bs. ExecuteDependedTasks repartition_env repartition_heap [4] [] =
      (Inr (),
       sends repartition_env [''create_schema(2);''] ?ws
       @ map (\<lambda>b. EvExecute b (MaxAdaptiveExecutorPoolSize repartition_env)) bs
       @ sends repartition_env [''cleanup_job(2);''] ?ws) \<and>
      list_all (ExecuteTaskList_ok repartition_env) bs"
    by blast
  from one two' three' show ?thesis by blast
qed

end
